theory Spec2Isabelle
  imports Complex_Main
begin

section \<open>Values\<close>

text \<open>
  The visualizer (class \<open>TSPVisualizer\<close> of \<open>src/app/page.tsx\<close>) computes with
  JavaScript numbers, the binary64 floating point numbers. A matrix entry, a step cost and
  a total cost is modelled as a \<open>jsval\<close>: a real number, one of the two infinities,
  \<open>NaN\<close>, or \<open>undefined\<close> (what reading an array past its end yields). The arithmetic
  on these values (the entries that \<open>calculateDistanceMatrix\<close> computes, the sums of
  costs) is idealised on the reals: its rounding and overflow are not modelled. The
  placement of the points accepts or refuses a candidate on a computed distance, so there
  the rounding decides what the program does, and the operations are modelled with it
  (\<open>round64\<close> below).
\<close>

datatype jsval = Num real | PosInf | NegInf | NaN | Undefined

text \<open>The comparison \<open>a < b\<close>: false as soon as one side is \<open>NaN\<close> or \<open>undefined\<close>.\<close>

fun js_less :: "jsval \<Rightarrow> jsval \<Rightarrow> bool" where
  "js_less (Num a) (Num b) = (a < b)"
| "js_less (Num a) PosInf = True"
| "js_less NegInf (Num b) = True"
| "js_less NegInf PosInf = True"
| "js_less a b = False"

text \<open>The addition \<open>a + b\<close> (\<open>undefined\<close> converts to \<open>NaN\<close>).\<close>

fun js_add :: "jsval \<Rightarrow> jsval \<Rightarrow> jsval" where
  "js_add (Num a) (Num b) = Num (a + b)"
| "js_add (Num a) PosInf = PosInf"
| "js_add (Num a) NegInf = NegInf"
| "js_add PosInf (Num b) = PosInf"
| "js_add PosInf PosInf = PosInf"
| "js_add NegInf (Num b) = NegInf"
| "js_add NegInf NegInf = NegInf"
| "js_add a b = NaN"

text \<open>
  A finite binary64 number is \<open>m * 2^e\<close> with an integer \<open>m\<close> of at most 53 bits.
  \<open>round64 x\<close> is the binary64 number nearest to the real \<open>x\<close>, the one with the even
  \<open>m\<close> when two are as near (\<open>rne\<close>): every arithmetic operation of JavaScript returns
  the exact result so rounded. The exponent is not bounded here, so overflow to
  \<open>Infinity\<close> and the subnormal numbers are not modelled; the numbers of the placement
  (coordinates inside the canvas, their differences, squares and sums) are far from both.
\<close>

definition rne :: "real \<Rightarrow> int" where
  "rne y =
     (let f = \<lfloor>y\<rfloor>; d = y - of_int f
      in if d < 1 / 2 then f else if 1 / 2 < d then f + 1
         else if even f then f else f + 1)"

definition round64 :: "real \<Rightarrow> real" where
  "round64 x =
     (if x = 0 then 0
      else (let u = 2 powr of_int (\<lfloor>log 2 \<bar>x\<bar>\<rfloor> - 52) in of_int (rne (x / u)) * u))"

text \<open>The operations \<open>a + b\<close>, \<open>a - b\<close>, \<open>a * b\<close> and \<open>Math.sqrt(a)\<close> on binary64 numbers.\<close>

definition fadd :: "real \<Rightarrow> real \<Rightarrow> real" where
  "fadd a b = round64 (a + b)"

definition fsub :: "real \<Rightarrow> real \<Rightarrow> real" where
  "fsub a b = round64 (a - b)"

definition fmul :: "real \<Rightarrow> real \<Rightarrow> real" where
  "fmul a b = round64 (a * b)"

definition fsqrt :: "real \<Rightarrow> real" where
  "fsqrt a = round64 (sqrt a)"

text \<open>
  \<open>TypeError\<close> is the exception that the runtime throws when a property of \<open>undefined\<close>
  is read. \<open>InvalidInput\<close> is the rejection that the specification describes for an
  invalid input; no statement of the source raises it.
\<close>

datatype error = TypeError | InvalidInput

section \<open>The visualizer's state\<close>

record node =
  node_x :: real
  node_y :: real
  node_id :: nat

record visualizer =
  canvas_width :: real
  canvas_height :: real
  nodes :: "node list"
  distanceMatrix :: "jsval list list"

section \<open>isValidNodePosition and generateRandomGraph\<close>

text \<open>
  \<open>isValidNodePosition(x, y, minDistance)\<close>: false at the first node whose computed
  distance is below \<open>minDistance\<close>, true when the loop over \<open>this.nodes\<close> ends. The
  distance is computed in binary64, each operation rounded.
\<close>

fun isValidNodePosition :: "node list \<Rightarrow> real \<Rightarrow> real \<Rightarrow> real \<Rightarrow> bool" where
  "isValidNodePosition [] x y minDistance = True"
| "isValidNodePosition (nd # rest) x y minDistance =
     (let dx = fsub x (node_x nd);
          dy = fsub y (node_y nd);
          distance = fsqrt (fadd (fmul dx dx) (fmul dy dy))
      in if distance < minDistance then False
         else isValidNodePosition rest x y minDistance)"

definition minDistance :: real where
  "minDistance = 38"

definition padding :: real where
  "padding = 50"

definition maxAttempts :: nat where
  "maxAttempts = 100"

text \<open>
  \<open>Math.random()\<close> is an input of the model: \<open>rnd k\<close> is the value of the \<open>k\<close>-th call
  (a binary64 number of \<open>[0, 1)\<close>), and the number of calls made so far is threaded
  through the loops. The coordinates \<open>Math.random() * (width - 2 * padding) + padding\<close>
  are computed in binary64, as is the number of nodes
  \<open>Math.floor(Math.random() * 7) + 3\<close>.

  The inner loop \<open>while (!validPosition && attempts < maxAttempts)\<close>, on the loop
  variables \<open>validPosition\<close>, \<open>attempts\<close>, \<open>x\<close>, \<open>y\<close> and the number \<open>k\<close> of draws made.
\<close>

function find_position ::
  "node list \<Rightarrow> real \<Rightarrow> real \<Rightarrow> (nat \<Rightarrow> real) \<Rightarrow> bool \<Rightarrow> nat \<Rightarrow> real \<Rightarrow> real \<Rightarrow> nat
    \<Rightarrow> bool \<times> real \<times> real \<times> nat" where
  "find_position nds w h rnd validPosition attempts x y k =
     (if \<not> validPosition \<and> attempts < maxAttempts then
        (let x' = fadd (fmul (rnd k) (fsub w (fmul 2 padding))) padding;
             y' = fadd (fmul (rnd (k + 1)) (fsub h (fmul 2 padding))) padding
         in find_position nds w h rnd (isValidNodePosition nds x' y' minDistance)
              (attempts + 1) x' y' (k + 2))
      else (validPosition, x, y, k))"
  by pat_completeness auto
termination
  by (relation "measure (\<lambda>(nds, w, h, rnd, validPosition, attempts, x, y, k). maxAttempts - attempts)")
     auto

declare find_position.simps [simp del]

text \<open>
  The outer loop \<open>for (let i = 0; i < numNodes; i++)\<close>: it stops (\<open>break\<close>) at the first
  node for which no valid position was found, and otherwise pushes the node with id \<open>i\<close>.
  \<open>x\<close> and \<open>y\<close> are unassigned before the inner loop; they are read only when
  \<open>validPosition\<close> holds, that is after an assignment, so their initial value is
  immaterial (0 here).
\<close>

function place_nodes ::
  "real \<Rightarrow> real \<Rightarrow> (nat \<Rightarrow> real) \<Rightarrow> int \<Rightarrow> nat \<Rightarrow> node list \<Rightarrow> nat \<Rightarrow> node list" where
  "place_nodes w h rnd numNodes i nds k =
     (if int i < numNodes then
        (case find_position nds w h rnd False 0 0 0 k of
           (validPosition, x, y, k') \<Rightarrow>
             if \<not> validPosition then nds
             else place_nodes w h rnd numNodes (i + 1)
                    (nds @ [\<lparr>node_x = x, node_y = y, node_id = i\<rparr>]) k')
      else nds)"
  by pat_completeness auto
termination
  by (relation "measure (\<lambda>(w, h, rnd, numNodes, i, nds, k). nat (numNodes - int i))") auto

declare place_nodes.simps [simp del]

section \<open>calculateDistanceMatrix\<close>

definition scaleFactor :: real where
  "scaleFactor = 0.2"

definition matrix_entry :: "node list \<Rightarrow> nat \<Rightarrow> nat \<Rightarrow> jsval" where
  "matrix_entry nds i j =
     (if i \<noteq> j then
        (let dx = node_x (nds ! i) - node_x (nds ! j);
             dy = node_y (nds ! i) - node_y (nds ! j);
             distance = sqrt (dx * dx + dy * dy) * scaleFactor
         in Num (min distance 99))
      else PosInf)"

text \<open>The two nested loops over \<open>0 \<le> i, j < n\<close> fill every cell of the \<open>n \<times> n\<close> array.\<close>

definition calculateDistanceMatrix :: "node list \<Rightarrow> jsval list list" where
  "calculateDistanceMatrix nds =
     (let n = length nds
      in map (\<lambda>i. map (\<lambda>j. matrix_entry nds i j) [0..<n]) [0..<n])"

definition generateRandomGraph :: "visualizer \<Rightarrow> (nat \<Rightarrow> real) \<Rightarrow> visualizer" where
  "generateRandomGraph v rnd =
     (let numNodes = \<lfloor>fmul (rnd 0) 7\<rfloor> + 3;
          nds = place_nodes (canvas_width v) (canvas_height v) rnd numNodes 0 [] 1
      in v\<lparr>nodes := nds, distanceMatrix := calculateDistanceMatrix nds\<rparr>)"

section \<open>findMinRoute\<close>

record step =
  currentCity :: int
  nextCity :: int
  currentPath :: "int list"
  costAdded :: jsval

record tour_result =
  totalCost :: jsval
  finalPath :: "int list"
  steps :: "step list"

text \<open>
  \<open>this.distanceMatrix[i]\<close> is \<open>undefined\<close> when \<open>i\<close> is not an index of the array
  (\<open>row\<close> gives \<open>None\<close>); reading \<open>[j]\<close> of it then throws a \<open>TypeError\<close>. Reading a row
  past its end yields \<open>undefined\<close> and throws nothing.
\<close>

definition row :: "jsval list list \<Rightarrow> int \<Rightarrow> jsval list option" where
  "row M i = (if 0 \<le> i \<and> i < int (length M) then Some (M ! nat i) else None)"

definition entry :: "jsval list \<Rightarrow> int \<Rightarrow> jsval" where
  "entry r j = (if 0 \<le> j \<and> j < int (length r) then r ! nat j else Undefined)"

text \<open>
  The scan \<open>for (let j = 0; j < n; j++)\<close> for the nearest unvisited city, over the list of
  the indices still to visit, on the loop variables \<open>minDistance\<close> and \<open>nextCity\<close>. The matrix
  is read only when \<open>j\<close> is unvisited (\<open>&&\<close> evaluates its right operand only then).
\<close>

fun scan ::
  "jsval list list \<Rightarrow> int \<Rightarrow> int set \<Rightarrow> nat list \<Rightarrow> jsval \<Rightarrow> int \<Rightarrow> error + (jsval \<times> int)" where
  "scan M cur visitedCities [] minDist nxt = Inr (minDist, nxt)"
| "scan M cur visitedCities (j # js) minDist nxt =
     (if int j \<notin> visitedCities then
        (case row M cur of
           None \<Rightarrow> Inl TypeError
         | Some r \<Rightarrow>
             if js_less (entry r (int j)) minDist
             then scan M cur visitedCities js (entry r (int j)) (int j)
             else scan M cur visitedCities js minDist nxt)
      else scan M cur visitedCities js minDist nxt)"

definition nearest :: "jsval list list \<Rightarrow> int \<Rightarrow> int set \<Rightarrow> nat \<Rightarrow> error + (jsval \<times> int)" where
  "nearest M cur visitedCities n = scan M cur visitedCities [0..<n] PosInf (- 1)"

text \<open>
  The loop \<open>while (visitedCities.size < n)\<close>, on the variables \<open>totalCost\<close>, \<open>currentCity\<close>,
  \<open>visitedCities\<close>, \<open>path\<close> and \<open>steps\<close>. When the scan finds no city (\<open>nextCity\<close> is
  still \<open>-1\<close>) the body changes nothing and the loop runs again on the same state: the
  call does not return, which is the value \<open>None\<close>.
\<close>

partial_function (option) visit_loop ::
  "jsval list list \<Rightarrow> nat \<Rightarrow> jsval \<Rightarrow> int \<Rightarrow> int set \<Rightarrow> int list \<Rightarrow> step list
    \<Rightarrow> (error + (jsval \<times> int \<times> int list \<times> step list)) option" where
  "visit_loop M n tcost cur visitedCities path stps =
     (if card visitedCities < n then
        (case nearest M cur visitedCities n of
           Inl e \<Rightarrow> Some (Inl e)
         | Inr (minDist, nxt) \<Rightarrow>
             if nxt \<noteq> - 1 then
               visit_loop M n (js_add tcost minDist) nxt (insert nxt visitedCities) (path @ [nxt])
                 (stps @ [\<lparr>currentCity = cur, nextCity = nxt, currentPath = path,
                          costAdded = minDist\<rparr>])
             else visit_loop M n tcost cur visitedCities path stps)
      else Some (Inr (tcost, cur, path, stps)))"

text \<open>
  \<open>findMinRoute(startNodeIndex)\<close>: \<open>None\<close> when the call does not return, \<open>Some (Inl e)\<close>
  when it throws \<open>e\<close>, \<open>Some (Inr r)\<close> when it returns \<open>r\<close>.
\<close>

definition findMinRoute :: "visualizer \<Rightarrow> int \<Rightarrow> (error + tour_result) option" where
  "findMinRoute v startNodeIndex =
     (let n = length (nodes v) in
      case visit_loop (distanceMatrix v) n (Num 0) startNodeIndex {startNodeIndex}
             [startNodeIndex] [] of
        None \<Rightarrow> None
      | Some (Inl e) \<Rightarrow> Some (Inl e)
      | Some (Inr (tcost, cur, path, stps)) \<Rightarrow>
          (case row (distanceMatrix v) cur of
             None \<Rightarrow> Some (Inl TypeError)
           | Some r \<Rightarrow>
               (let returnCost = entry r startNodeIndex
                in Some (Inr \<lparr>totalCost = js_add tcost returnCost,
                              finalPath = path @ [startNodeIndex],
                              steps = stps @ [\<lparr>currentCity = cur, nextCity = startNodeIndex,
                                              currentPath = path, costAdded = returnCost\<rparr>]\<rparr>))))"

section \<open>drawGraph and drawAnimationStep\<close>

text \<open>
  The canvas calls are not modelled; the reads that can throw are. \<open>this.nodes[c]\<close> is
  \<open>undefined\<close> when \<open>c\<close> is not an index of the array, and reading \<open>x\<close> of it throws.
\<close>

definition node_at :: "node list \<Rightarrow> int \<Rightarrow> node option" where
  "node_at nds c = (if 0 \<le> c \<and> c < int (length nds) then Some (nds ! nat c) else None)"

text \<open>
  \<open>drawGraph()\<close> reads \<open>this.distanceMatrix[i][j]\<close> for every \<open>i < j < n\<close>, which throws
  when the row \<open>i\<close> is missing.
\<close>

definition drawGraph :: "visualizer \<Rightarrow> error + unit" where
  "drawGraph v =
     (let n = length (nodes v) in
      if list_all (\<lambda>i. list_all (\<lambda>j. row (distanceMatrix v) (int i) \<noteq> None) [i + 1..<n])
           [0..<n]
      then Inr () else Inl TypeError)"

text \<open>
  The loop \<open>for (let i = 0; i < path.length - 1; i++)\<close> that draws the segments of the path
  so far, from \<open>this.nodes[path[i]]\<close> to \<open>this.nodes[path[i + 1]]\<close>.
\<close>

fun draw_path :: "node list \<Rightarrow> int list \<Rightarrow> error + unit" where
  "draw_path nds (a # b # rest) =
     (case node_at nds a of
        None \<Rightarrow> Inl TypeError
      | Some node1 \<Rightarrow>
          (case node_at nds b of
             None \<Rightarrow> Inl TypeError
           | Some node2 \<Rightarrow> draw_path nds (b # rest)))"
| "draw_path nds path = Inr ()"

text \<open>
  The loop \<open>for (let i = 0; i <= currentStep; i++) costSoFar += steps[i].costAdded\<close>, over
  the list of the indices still to add. \<open>steps[i]\<close> past the end is \<open>undefined\<close>, and reading
  \<open>costAdded\<close> of it throws.
\<close>

fun cost_loop :: "step list \<Rightarrow> nat list \<Rightarrow> jsval \<Rightarrow> error + jsval" where
  "cost_loop stps [] sofar = Inr sofar"
| "cost_loop stps (i # is) sofar =
     (if i < length stps then cost_loop stps is (js_add sofar (costAdded (stps ! i)))
      else Inl TypeError)"

text \<open>
  What \<open>drawAnimationStep(steps, currentStep)\<close> hands to the canvas when it returns: the
  path drawn in green (\<open>steps[currentStep].currentPath\<close>), the edge highlighted in red and
  the number printed after "Total Cost So Far".
\<close>

record frame =
  drawnPath :: "int list"
  highlightedEdge :: "int \<times> int"
  costSoFar :: jsval

definition drawAnimationStep :: "visualizer \<Rightarrow> step list \<Rightarrow> nat \<Rightarrow> error + frame" where
  "drawAnimationStep v stps currentStep =
     (case drawGraph v of
        Inl e \<Rightarrow> Inl e
      | Inr u \<Rightarrow>
          if currentStep < length stps then
            (case draw_path (nodes v) (currentPath (stps ! currentStep)) of
               Inl e \<Rightarrow> Inl e
             | Inr u' \<Rightarrow>
                 (case node_at (nodes v) (currentCity (stps ! currentStep)) of
                    None \<Rightarrow> Inl TypeError
                  | Some node1 \<Rightarrow>
                      (case node_at (nodes v) (nextCity (stps ! currentStep)) of
                         None \<Rightarrow> Inl TypeError
                       | Some node2 \<Rightarrow>
                           (case cost_loop stps [0..<currentStep + 1] (Num 0) of
                              Inl e \<Rightarrow> Inl e
                            | Inr c \<Rightarrow>
                                Inr \<lparr>drawnPath = currentPath (stps ! currentStep),
                                     highlightedEdge =
                                       (currentCity (stps ! currentStep),
                                        nextCity (stps ! currentStep)),
                                     costSoFar = c\<rparr>))))
          else Inl TypeError)"

declare visit_loop.simps [code]

section \<open>Well-formed inputs and loop invariants\<close>

text \<open>
  A distance matrix of size \<open>n\<close>: \<open>n\<close> rows of \<open>n\<close> entries, every entry off the diagonal
  below \<open>+\<infinity>\<close> (what \<open>calculateDistanceMatrix\<close> produces; nothing is asked of the
  diagonal).
\<close>

definition wf_matrix :: "nat \<Rightarrow> jsval list list \<Rightarrow> bool" where
  "wf_matrix n M \<longleftrightarrow>
     length M = n \<and> list_all (\<lambda>r. length r = n) M \<and>
     list_all (\<lambda>i. list_all (\<lambda>j. i = j \<or> js_less (M ! i ! j) PosInf) [0..<n]) [0..<n]"

text \<open>
  What the scan has established after the indices below \<open>k\<close>: either no unvisited city
  with a distance below \<open>+\<infinity>\<close> was met, or \<open>nextCity\<close> is the first unvisited index
  whose distance is the least one met.
\<close>

definition scan_inv :: "jsval list \<Rightarrow> int set \<Rightarrow> nat \<Rightarrow> jsval \<Rightarrow> int \<Rightarrow> bool" where
  "scan_inv r visitedCities k minDist nxt \<longleftrightarrow>
     (nxt = - 1 \<and> minDist = PosInf \<and>
        (\<forall>j<k. int j \<notin> visitedCities \<longrightarrow> \<not> js_less (entry r (int j)) PosInf)) \<or>
     (\<exists>p<k. nxt = int p \<and> int p \<notin> visitedCities \<and> minDist = entry r (int p) \<and>
        js_less minDist PosInf \<and>
        (\<forall>j<k. int j \<notin> visitedCities \<longrightarrow> \<not> js_less (entry r (int j)) minDist) \<and>
        (\<forall>j<p. int j \<notin> visitedCities \<longrightarrow> entry r (int j) \<noteq> minDist))"

text \<open>The sum of the costs of a trace, added from the left, starting from 0.\<close>

definition sum_costs :: "step list \<Rightarrow> jsval" where
  "sum_costs stps = foldl js_add (Num 0) (map costAdded stps)"

text \<open>
  A trace agrees with a path: step \<open>i\<close> leaves the \<open>i\<close>-th city of the path for the next
  one, and has recorded the path up to the city it leaves.
\<close>

definition trace_ok :: "int list \<Rightarrow> step list \<Rightarrow> bool" where
  "trace_ok path stps \<longleftrightarrow>
     (\<forall>i<length stps.
        currentCity (stps ! i) = path ! i \<and> nextCity (stps ! i) = path ! (i + 1) \<and>
        currentPath (stps ! i) = take (i + 1) path)"

text \<open>The invariant of the loop over the cities, for a tour started at \<open>s\<close>.\<close>

definition route_inv ::
  "nat \<Rightarrow> int \<Rightarrow> jsval \<Rightarrow> int \<Rightarrow> int set \<Rightarrow> int list \<Rightarrow> step list \<Rightarrow> bool" where
  "route_inv n s tcost cur visitedCities path stps \<longleftrightarrow>
     path \<noteq> [] \<and> hd path = s \<and> last path = cur \<and> visitedCities = set path \<and>
     distinct path \<and> set path \<subseteq> int ` {0..<n} \<and>
     length path = length stps + 1 \<and> tcost = sum_costs stps \<and> trace_ok path stps"

text \<open>The Euclidean distance of two points.\<close>

definition euclidean :: "node \<Rightarrow> node \<Rightarrow> real" where
  "euclidean a b = sqrt ((node_x a - node_x b)\<^sup>2 + (node_y a - node_y b)\<^sup>2)"

text \<open>
  The distance of two points as \<open>isValidNodePosition\<close> computes it, in binary64, and a
  point list whose points keep a computed distance.
\<close>

definition computed_distance :: "node \<Rightarrow> node \<Rightarrow> real" where
  "computed_distance a b =
     (let dx = fsub (node_x a) (node_x b);
          dy = fsub (node_y a) (node_y b)
      in fsqrt (fadd (fmul dx dx) (fmul dy dy)))"

definition separated :: "real \<Rightarrow> node list \<Rightarrow> bool" where
  "separated d nds \<longleftrightarrow>
     (\<forall>i<length nds. \<forall>j<length nds. i \<noteq> j \<longrightarrow> d \<le> computed_distance (nds ! i) (nds ! j))"

section \<open>Example graphs\<close>

text \<open>Three points on a line, at (0, 0), (0, 10) and (0, 15), with their distance matrix.\<close>

definition line_graph :: visualizer where
  "line_graph =
     \<lparr>canvas_width = 800, canvas_height = 600,
      nodes = [\<lparr>node_x = 0, node_y = 0, node_id = 0\<rparr>,
               \<lparr>node_x = 0, node_y = 10, node_id = 1\<rparr>,
               \<lparr>node_x = 0, node_y = 15, node_id = 2\<rparr>],
      distanceMatrix = [[PosInf, Num 2, Num 3],
                        [Num 2, PosInf, Num 1],
                        [Num 3, Num 1, PosInf]]\<rparr>"

text \<open>A single point, with its \<open>1 \<times> 1\<close> distance matrix.\<close>

definition single_graph :: visualizer where
  "single_graph =
     \<lparr>canvas_width = 800, canvas_height = 600,
      nodes = [\<lparr>node_x = 100, node_y = 100, node_id = 0\<rparr>],
      distanceMatrix = [[PosInf]]\<rparr>"

text \<open>A matrix in which the cities 1 and 2 are equally far from city 0.\<close>

definition tie_matrix :: "jsval list list" where
  "tie_matrix = [[PosInf, Num 2, Num 2],
                 [Num 2, PosInf, Num 3],
                 [Num 2, Num 3, PosInf]]"

text \<open>Two points with a matrix in which no city can be reached from another.\<close>

definition cut_graph :: visualizer where
  "cut_graph =
     \<lparr>canvas_width = 800, canvas_height = 600,
      nodes = [\<lparr>node_x = 100, node_y = 100, node_id = 0\<rparr>,
               \<lparr>node_x = 200, node_y = 100, node_id = 1\<rparr>],
      distanceMatrix = [[PosInf, PosInf], [PosInf, PosInf]]\<rparr>"

text \<open>
  A sequence of draws: \<open>Math.random()\<close> returns 0 three times, then the binary64
  numbers \<open>244481122269685 / 2^52\<close> and \<open>18548651376 / 2^52\<close>, then 0.5. The second
  candidate point is then at \<open>(close_x, close_y)\<close>, that is
  (87.99999994420034, 50.00205931398334).
\<close>

definition rounding_draws :: "nat \<Rightarrow> real" where
  "rounding_draws k =
     (if k \<le> 2 then 0
      else if k = 3 then 244481122269685 / 2 ^ 52
      else if k = 4 then 18548651376 / 2 ^ 52
      else 1 / 2)"

definition close_x :: real where
  "close_x = 6192449483707880 / 2 ^ 46"

definition close_y :: real where
  "close_y = 7037164240444150 / 2 ^ 47"

section \<open>The comparison and the scan\<close>

lemma js_less_irrefl: "\<not> js_less a a"
  by (cases a) auto

lemma js_less_trans: "js_less a b \<Longrightarrow> js_less b c \<Longrightarrow> js_less a c"
  by (cases a; cases b; cases c) auto

lemma js_less_tricho:
  "js_less a PosInf \<Longrightarrow> js_less b PosInf \<Longrightarrow> \<not> js_less a b \<Longrightarrow> \<not> js_less b a \<Longrightarrow> a = b"
  by (cases a; cases b) auto

lemma wf_matrix_length: "wf_matrix n M \<Longrightarrow> length M = n"
  by (simp add: wf_matrix_def)

lemma wf_matrix_row: "wf_matrix n M \<Longrightarrow> i < n \<Longrightarrow> length (M ! i) = n"
  by (simp add: wf_matrix_def list_all_length)

lemma wf_matrix_finite:
  "wf_matrix n M \<Longrightarrow> i < n \<Longrightarrow> j < n \<Longrightarrow> i \<noteq> j \<Longrightarrow> js_less (M ! i ! j) PosInf"
  by (auto simp add: wf_matrix_def list_all_length)

lemma scan_append:
  "scan M cur vis (xs @ ys) md nc =
     (case scan M cur vis xs md nc of
        Inl e \<Rightarrow> Inl e
      | Inr (md', nc') \<Rightarrow> scan M cur vis ys md' nc')"
  by (induction xs arbitrary: md nc) (auto split: option.splits)

text \<open>One more index keeps the scan's invariant.\<close>

lemma scan_inv_step:
  assumes r: "row M cur = Some r" and inv: "scan_inv r vis k md nc"
  shows "\<exists>md' nc'. scan M cur vis [k] md nc = Inr (md', nc') \<and> scan_inv r vis (Suc k) md' nc'"
proof (cases "int k \<notin> vis \<and> js_less (entry r (int k)) md")
  case True
  then have sc: "scan M cur vis [k] md nc = Inr (entry r (int k), int k)"
    using r by simp
  have lt: "js_less (entry r (int k)) PosInf"
    using True inv by (auto simp: scan_inv_def intro: js_less_trans)
  have a: "\<forall>j<Suc k. int j \<notin> vis \<longrightarrow> \<not> js_less (entry r (int j)) (entry r (int k))"
    using True inv by (auto simp: scan_inv_def less_Suc_eq js_less_irrefl dest: js_less_trans)
  have b: "\<forall>j<k. int j \<notin> vis \<longrightarrow> entry r (int j) \<noteq> entry r (int k)"
    using True inv by (auto simp: scan_inv_def)
  have "scan_inv r vis (Suc k) (entry r (int k)) (int k)"
    unfolding scan_inv_def using True lt a b by blast
  with sc show ?thesis by blast
next
  case False
  then have sc: "scan M cur vis [k] md nc = Inr (md, nc)"
    using r by auto
  have "scan_inv r vis (Suc k) md nc"
    using False inv unfolding scan_inv_def less_Suc_eq by (elim disjE) (auto simp: less_Suc_eq)
  with sc show ?thesis by blast
qed

lemma nearest_inv:
  assumes r: "row M cur = Some r"
  shows "\<exists>md nc. nearest M cur vis k = Inr (md, nc) \<and> scan_inv r vis k md nc"
proof (induction k)
  case 0
  show ?case by (simp add: nearest_def scan_inv_def)
next
  case (Suc k)
  then obtain md nc where h: "scan M cur vis [0..<k] PosInf (- 1) = Inr (md, nc)"
    and i: "scan_inv r vis k md nc"
    by (auto simp: nearest_def)
  from scan_inv_step [OF r i] obtain md' nc' where
    "scan M cur vis [k] md nc = Inr (md', nc')" "scan_inv r vis (Suc k) md' nc'" by blast
  then show ?case using h by (simp add: nearest_def scan_append)
qed

section \<open>The loop over the cities\<close>

lemma trace_ok_snoc:
  assumes t: "trace_ok path stps" and len: "length path = length stps + 1"
    and lst: "last path = cur"
  shows "trace_ok (path @ [c])
           (stps @ [\<lparr>currentCity = cur, nextCity = c, currentPath = path, costAdded = d\<rparr>])"
proof -
  let ?st = "\<lparr>currentCity = cur, nextCity = c, currentPath = path, costAdded = d\<rparr>"
  have cur: "path ! length stps = cur"
    using len lst by (cases path rule: rev_cases) (simp_all add: nth_append)
  have "currentCity ((stps @ [?st]) ! i) = (path @ [c]) ! i \<and>
        nextCity ((stps @ [?st]) ! i) = (path @ [c]) ! (i + 1) \<and>
        currentPath ((stps @ [?st]) ! i) = take (i + 1) (path @ [c])"
    if "i < length stps + 1" for i
  proof -
    from that consider "i < length stps" | "i = length stps" by linarith
    then show ?thesis
    proof cases
      case 1
      then show ?thesis using t len by (simp add: trace_ok_def nth_append)
    next
      case 2
      then show ?thesis using len cur by (simp add: nth_append)
    qed
  qed
  then show ?thesis by (simp add: trace_ok_def)
qed

lemma route_inv_init: "0 \<le> s \<Longrightarrow> s < int n \<Longrightarrow> route_inv n s (Num 0) s {s} [s] []"
  unfolding route_inv_def sum_costs_def trace_ok_def
  by (auto simp: image_iff intro: bexI [of _ "nat s"])

lemma unvisited_exists:
  assumes "card vis < n" "vis \<subseteq> int ` {0..<n}"
  shows "\<exists>j<n. int j \<notin> vis"
proof (rule ccontr)
  assume "\<not> (\<exists>j<n. int j \<notin> vis)"
  then have "int ` {0..<n} \<subseteq> vis" by auto
  with assms(2) have "vis = int ` {0..<n}" by auto
  then have "card vis = n" by (simp add: card_image)
  with assms(1) show False by simp
qed

lemma route_inv_extend:
  assumes inv: "route_inv n s tcost cur vis path stps"
    and p: "p < n" "int p \<notin> vis"
  shows "route_inv n s (js_add tcost md) (int p) (insert (int p) vis) (path @ [int p])
           (stps @ [\<lparr>currentCity = cur, nextCity = int p, currentPath = path, costAdded = md\<rparr>])"
proof -
  from inv have t: "trace_ok path stps" and len: "length path = length stps + 1"
    and lst: "last path = cur"
    by (simp_all add: route_inv_def)
  show ?thesis
    unfolding route_inv_def
    using inv p trace_ok_snoc [OF t len lst] by (simp add: route_inv_def sum_costs_def)
qed

text \<open>
  On a distance matrix the loop returns, whatever the state it starts from, and the
  state it returns holds a path through all \<open>n\<close> cities.
\<close>

lemma visit_loop_returns:
  assumes wf: "wf_matrix n M"
  shows "route_inv n s tcost cur vis path stps \<Longrightarrow>
    \<exists>tcost' cur' path' stps'.
      visit_loop M n tcost cur vis path stps = Some (Inr (tcost', cur', path', stps')) \<and>
      route_inv n s tcost' cur' (set path') path' stps' \<and> length path' = n"
proof (induction "n - card vis" arbitrary: tcost cur vis path stps)
  case 0
  then have inv: "route_inv n s tcost cur vis path stps" by simp
  then have vis: "vis = set path" and d: "distinct path" and sub: "set path \<subseteq> int ` {0..<n}"
    by (simp_all add: route_inv_def)
  have "card (set path) \<le> card (int ` {0..<n})" using sub by (intro card_mono) auto
  then have "card vis \<le> n" using vis by (simp add: card_image)
  with 0 have c: "card vis = n" by simp
  then have "length path = n" using vis d by (simp add: distinct_card)
  moreover have "visit_loop M n tcost cur vis path stps = Some (Inr (tcost, cur, path, stps))"
    using c by (subst visit_loop.simps) simp
  ultimately show ?case using inv vis by auto
next
  case (Suc m)
  then have inv: "route_inv n s tcost cur vis path stps" by simp
  then have vis: "vis = set path" and sub: "set path \<subseteq> int ` {0..<n}"
    and ne: "path \<noteq> []" and lst: "last path = cur"
    by (simp_all add: route_inv_def)
  from Suc(2) have lt: "card vis < n" by simp
  have curv: "cur \<in> vis" using vis ne lst by auto
  then obtain c where c: "c < n" "cur = int c" using vis sub by auto
  then have r: "row M cur = Some (M ! c)"
    using wf by (simp add: row_def wf_matrix_length)
  from nearest_inv [OF r] obtain md nc where
    near: "nearest M cur vis n = Inr (md, nc)" and si: "scan_inv (M ! c) vis n md nc" by blast
  from unvisited_exists [OF lt] vis sub obtain j where j: "j < n" "int j \<notin> vis" by auto
  then have "j \<noteq> c" using curv c by auto
  then have "js_less (M ! c ! j) PosInf" using wf_matrix_finite [OF wf c(1) j(1)] by simp
  then have "js_less (entry (M ! c) (int j)) PosInf"
    using wf_matrix_row [OF wf c(1)] j by (simp add: entry_def)
  with si j obtain p where p: "p < n" "nc = int p" "int p \<notin> vis"
    by (auto simp: scan_inv_def)
  let ?st = "\<lparr>currentCity = cur, nextCity = int p, currentPath = path, costAdded = md\<rparr>"
  have inv': "route_inv n s (js_add tcost md) (int p) (insert (int p) vis) (path @ [int p])
                (stps @ [?st])"
    by (rule route_inv_extend [OF inv p(1) p(3)])
  have fin: "finite vis" using vis by simp
  have "m = n - card (insert (int p) vis)"
    using Suc(2) p(3) fin by simp
  from Suc(1) [OF this inv'] obtain tcost' cur' path' stps' where
    res: "visit_loop M n (js_add tcost md) (int p) (insert (int p) vis) (path @ [int p])
            (stps @ [?st]) = Some (Inr (tcost', cur', path', stps'))"
    and fi: "route_inv n s tcost' cur' (set path') path' stps'" "length path' = n"
    by blast
  have "visit_loop M n tcost cur vis path stps = Some (Inr (tcost', cur', path', stps'))"
    using lt near p res by (subst visit_loop.simps) simp
  with fi show ?case by blast
qed

text \<open>
  On a valid input \<open>findMinRoute\<close> returns: the loop's final path and trace, extended by
  the closing step back to the start.
\<close>

lemma findMinRoute_valid:
  assumes wf: "wf_matrix (length (nodes v)) (distanceMatrix v)"
    and s: "0 \<le> s" "s < int (length (nodes v))"
  shows "\<exists>tcost cur path stps.
      route_inv (length (nodes v)) s tcost cur (set path) path stps \<and>
      length path = length (nodes v) \<and>
      findMinRoute v s =
        Some (Inr \<lparr>totalCost = js_add tcost (entry (distanceMatrix v ! nat cur) s),
                   finalPath = path @ [s],
                   steps = stps @ [\<lparr>currentCity = cur, nextCity = s, currentPath = path,
                                   costAdded = entry (distanceMatrix v ! nat cur) s\<rparr>]\<rparr>)"
proof -
  let ?n = "length (nodes v)" and ?M = "distanceMatrix v"
  from visit_loop_returns [OF wf route_inv_init [OF s]]
  obtain tcost cur path stps where
    res: "visit_loop ?M ?n (Num 0) s {s} [s] [] = Some (Inr (tcost, cur, path, stps))"
    and inv: "route_inv ?n s tcost cur (set path) path stps" and len: "length path = ?n"
    by blast
  from inv have "cur \<in> set path" "set path \<subseteq> int ` {0..<?n}"
    by (auto simp: route_inv_def)
  then have "0 \<le> cur" "cur < int ?n" by auto
  then have r: "row ?M cur = Some (?M ! nat cur)"
    using wf by (simp add: row_def wf_matrix_length)
  have "findMinRoute v s =
      Some (Inr \<lparr>totalCost = js_add tcost (entry (?M ! nat cur) s),
                 finalPath = path @ [s],
                 steps = stps @ [\<lparr>currentCity = cur, nextCity = s, currentPath = path,
                                 costAdded = entry (?M ! nat cur) s\<rparr>]\<rparr>)"
    using res r by (simp add: findMinRoute_def Let_def)
  with inv len show ?thesis by blast
qed

text \<open>
  The condition on the entries off the diagonal cannot be dropped: when the scan finds
  no city while some city is unvisited, the loop repeats on the same state for ever.
\<close>

lemma visit_loop_stuck_aux:
  assumes "visit_loop M n tcost cur vis path stps = Some y"
  shows "\<not> (card vis < n \<and> nearest M cur vis n = Inr (md, - 1))"
  using assms
proof (induction M n tcost cur vis path stps y rule: visit_loop.raw_induct)
  case (1 visit_loop' M n tcost cur visitedCities path stps y)
  show ?case
  proof
    assume a: "card visitedCities < n \<and> nearest M cur visitedCities n = Inr (md, - 1)"
    with 1(2) have b: "visit_loop' M n tcost cur visitedCities path stps = Some y"
      by simp
    from 1(1) [OF b] 1(3) a show False by simp
  qed
qed (rule assms)

lemma visit_loop_stuck:
  assumes "card vis < n" and "nearest M cur vis n = Inr (md, - 1)"
  shows "visit_loop M n tcost cur vis path stps = None"
  using visit_loop_stuck_aux [of M n tcost cur vis path stps _ md] assms
  by (cases "visit_loop M n tcost cur vis path stps") auto

lemma findMinRoute_cut_graph: "findMinRoute cut_graph 0 = None"
proof -
  have "nearest (distanceMatrix cut_graph) 0 {0} 2 = Inr (PosInf, - 1)"
    by (simp add: nearest_def cut_graph_def row_def entry_def upt_rec)
  then have "visit_loop (distanceMatrix cut_graph) 2 (Num 0) 0 {0} [0] [] = None"
    by (intro visit_loop_stuck) simp_all
  moreover have "length (nodes cut_graph) = 2" by (simp add: cut_graph_def)
  ultimately show ?thesis by (simp add: findMinRoute_def)
qed

lemma distinct_count_one: "distinct xs \<Longrightarrow> x \<in> set xs \<Longrightarrow> count_list xs x = 1"
  by (induction xs) auto

lemma wf_line_graph: "wf_matrix 3 (distanceMatrix line_graph)"
  by (simp add: wf_matrix_def line_graph_def upt_rec)

section \<open>The tour (C1)\<close>

text \<open>
  C1. For every distance matrix of size \<open>N \<ge> 2\<close> and every start index \<open>0 \<le> startId < N\<close>,
  \<open>findMinRoute(startId)\<close> returns a result whose \<open>steps\<close> has length \<open>N\<close>, whose
  \<open>finalPath\<close> has length \<open>N + 1\<close>, starts and ends with \<open>startId\<close>, and holds every id
  of \<open>0..N-1\<close> exactly once among its first \<open>N\<close> entries.
\<close>

theorem findMinRoute_tour:
  assumes "wf_matrix (length (nodes v)) (distanceMatrix v)"
    and "2 \<le> length (nodes v)"
    and "0 \<le> startId" "startId < int (length (nodes v))"
  shows "\<exists>r. findMinRoute v startId = Some (Inr r) \<and>
      length (steps r) = length (nodes v) \<and>
      length (finalPath r) = length (nodes v) + 1 \<and>
      finalPath r ! 0 = startId \<and>
      finalPath r ! length (nodes v) = startId \<and>
      (\<forall>c<length (nodes v). count_list (take (length (nodes v)) (finalPath r)) (int c) = 1)"
proof -
  let ?n = "length (nodes v)"
  from findMinRoute_valid [OF assms(1,3,4)] obtain tcost cur path stps r where
    inv: "route_inv ?n startId tcost cur (set path) path stps" and len: "length path = ?n"
    and r: "findMinRoute v startId = Some (Inr r)" "finalPath r = path @ [startId]"
      "length (steps r) = length stps + 1"
    by fastforce
  from inv have ne: "path \<noteq> []" and hd: "hd path = startId" and d: "distinct path"
    and sub: "set path \<subseteq> int ` {0..<?n}" and ls: "length path = length stps + 1"
    by (simp_all add: route_inv_def)
  have "card (set path) = card (int ` {0..<?n})"
    using d len by (simp add: distinct_card card_image)
  with sub have seteq: "set path = int ` {0..<?n}"
    by (intro card_subset_eq) auto
  have cnt: "\<forall>c<?n. count_list path (int c) = 1"
  proof (intro allI impI)
    fix c assume "c < ?n"
    then have "int c \<in> set path" using seteq by auto
    then show "count_list path (int c) = 1" using d by (simp add: distinct_count_one)
  qed
  have "finalPath r ! 0 = startId"
    using r(2) ne hd by (simp add: nth_append hd_conv_nth)
  moreover have "finalPath r ! ?n = startId"
    using r(2) len by (simp add: nth_append)
  ultimately show ?thesis
    using r ls len cnt by auto
qed

theorem findMinRoute_tour_witness:
  "wf_matrix (length (nodes line_graph)) (distanceMatrix line_graph) \<and>
   2 \<le> length (nodes line_graph) \<and>
   (\<exists>r. findMinRoute line_graph 1 = Some (Inr r) \<and>
      length (steps r) = 3 \<and> length (finalPath r) = 4 \<and>
      finalPath r ! 0 = 1 \<and> finalPath r ! 3 = 1 \<and>
      count_list (take 3 (finalPath r)) 0 = 1 \<and>
      count_list (take 3 (finalPath r)) 1 = 1 \<and>
      count_list (take 3 (finalPath r)) 2 = 1)"
proof -
  have n: "length (nodes line_graph) = 3" by (simp add: line_graph_def)
  have wf: "wf_matrix (length (nodes line_graph)) (distanceMatrix line_graph)"
    using wf_line_graph n by simp
  from findMinRoute_tour [OF wf, of 1] n obtain r where
    r: "findMinRoute line_graph 1 = Some (Inr r)" "length (steps r) = 3"
      "length (finalPath r) = 4" "finalPath r ! 0 = 1" "finalPath r ! 3 = 1"
      "\<forall>c<3. count_list (take 3 (finalPath r)) (int c) = 1"
    by auto
  have "count_list (take 3 (finalPath r)) 0 = 1"
    using r(6) [rule_format, of 0] by simp
  moreover have "count_list (take 3 (finalPath r)) 1 = 1"
    using r(6) [rule_format, of 1] by simp
  moreover have "count_list (take 3 (finalPath r)) 2 = 1"
    using r(6) [rule_format, of 2] by simp
  ultimately show ?thesis using wf n r(1-5) by auto
qed

section \<open>The total cost (C5)\<close>

text \<open>
  \<open>sum_costs\<close> is the sum of the costs: it adds the cost of a last step to the sum of
  the steps before it, and on finite costs it is the sum of the numbers.
\<close>

lemma sum_costs_snoc: "sum_costs (stps @ [st]) = js_add (sum_costs stps) (costAdded st)"
  by (simp add: sum_costs_def)

lemma foldl_js_add_Num: "foldl js_add (Num a) (map Num cs) = Num (a + sum_list cs)"
  by (induction cs arbitrary: a) (simp_all add: add.assoc)

lemma sum_costs_finite: "map costAdded stps = map Num cs \<Longrightarrow> sum_costs stps = Num (sum_list cs)"
  using foldl_js_add_Num [of 0 cs] by (simp add: sum_costs_def)

text \<open>
  C5. On a valid input (a distance matrix of size \<open>N\<close> and \<open>0 \<le> startId < N\<close>)
  \<open>findMinRoute\<close> returns a result whose \<open>totalCost\<close> is the sum of \<open>costAdded\<close> over
  all entries of its \<open>steps\<close>, added in the order of the steps.
\<close>

theorem totalCost_is_sum:
  assumes "wf_matrix (length (nodes v)) (distanceMatrix v)"
    and "0 \<le> startId" "startId < int (length (nodes v))"
  shows "\<exists>r. findMinRoute v startId = Some (Inr r) \<and> totalCost r = sum_costs (steps r)"
proof -
  from findMinRoute_valid [OF assms] obtain tcost cur path stps where
    inv: "route_inv (length (nodes v)) startId tcost cur (set path) path stps"
    and r: "findMinRoute v startId =
        Some (Inr \<lparr>totalCost = js_add tcost (entry (distanceMatrix v ! nat cur) startId),
                   finalPath = path @ [startId],
                   steps = stps @ [\<lparr>currentCity = cur, nextCity = startId, currentPath = path,
                                   costAdded = entry (distanceMatrix v ! nat cur) startId\<rparr>]\<rparr>)"
    by blast
  from inv have "tcost = sum_costs stps" by (simp add: route_inv_def)
  then show ?thesis using r by (simp add: sum_costs_def)
qed

theorem totalCost_is_sum_witness:
  "wf_matrix (length (nodes line_graph)) (distanceMatrix line_graph) \<and>
   (\<exists>r. findMinRoute line_graph 2 = Some (Inr r) \<and> totalCost r = sum_costs (steps r))"
proof -
  have n: "length (nodes line_graph) = 3" by (simp add: line_graph_def)
  have wf: "wf_matrix (length (nodes line_graph)) (distanceMatrix line_graph)"
    using wf_line_graph n by simp
  show ?thesis using totalCost_is_sum [OF wf, of 2] wf n by simp
qed

section \<open>The trace and the path (C9)\<close>

lemma last_take_Suc: "i < length xs \<Longrightarrow> last (take (Suc i) xs) = xs ! i"
  by (simp add: take_Suc_conv_app_nth)

text \<open>
  C9. On a valid input with \<open>N \<ge> 2\<close>, \<open>findMinRoute\<close> returns a result in which the
  first step leaves \<open>startId\<close>, every step's \<open>currentPath\<close> ends with that step's
  \<open>currentCity\<close> and is the prefix \<open>finalPath[0..i]\<close> of the final path, and every step
  leaves the city its predecessor went to.
\<close>

theorem steps_follow_path:
  assumes "wf_matrix (length (nodes v)) (distanceMatrix v)"
    and "2 \<le> length (nodes v)"
    and "0 \<le> startId" "startId < int (length (nodes v))"
  shows "\<exists>r. findMinRoute v startId = Some (Inr r) \<and>
      currentCity (steps r ! 0) = startId \<and>
      (\<forall>i<length (steps r).
         currentPath (steps r ! i) \<noteq> [] \<and>
         last (currentPath (steps r ! i)) = currentCity (steps r ! i) \<and>
         currentPath (steps r ! i) = take (i + 1) (finalPath r)) \<and>
      (\<forall>i. i + 1 < length (steps r) \<longrightarrow>
         currentCity (steps r ! (i + 1)) = nextCity (steps r ! i))"
proof -
  from findMinRoute_valid [OF assms(1,3,4)] obtain tcost cur path stps r where
    inv: "route_inv (length (nodes v)) startId tcost cur (set path) path stps"
    and r: "findMinRoute v startId = Some (Inr r)"
    and fp: "finalPath r = path @ [startId]"
    and ss: "steps r = stps @ [\<lparr>currentCity = cur, nextCity = startId, currentPath = path,
               costAdded = entry (distanceMatrix v ! nat cur) startId\<rparr>]"
    by fastforce
  from inv have t: "trace_ok path stps" and len: "length path = length stps + 1"
    and lst: "last path = cur" and ne: "path \<noteq> []" and hd: "hd path = startId"
    by (simp_all add: route_inv_def)
  have tr: "trace_ok (finalPath r) (steps r)"
    unfolding fp ss by (rule trace_ok_snoc [OF t len lst])
  have l: "length (finalPath r) = length (steps r) + 1"
    using len fp ss by simp
  have nth: "currentCity (steps r ! i) = finalPath r ! i"
    "nextCity (steps r ! i) = finalPath r ! (i + 1)"
    "currentPath (steps r ! i) = take (i + 1) (finalPath r)" if "i < length (steps r)" for i
    using tr that unfolding trace_ok_def by blast+
  have "finalPath r ! 0 = startId"
    using fp ne hd by (simp add: nth_append hd_conv_nth)
  then have first: "currentCity (steps r ! 0) = startId"
    using nth(1) [of 0] ss by simp
  have each: "currentPath (steps r ! i) \<noteq> [] \<and>
      last (currentPath (steps r ! i)) = currentCity (steps r ! i) \<and>
      currentPath (steps r ! i) = take (i + 1) (finalPath r)" if "i < length (steps r)" for i
  proof -
    have b: "i < length (finalPath r)" using that l by simp
    then have "take (i + 1) (finalPath r) \<noteq> []" by auto
    moreover have "last (take (i + 1) (finalPath r)) = finalPath r ! i"
      using last_take_Suc [OF b] by simp
    ultimately show ?thesis using nth(1,3) [OF that] by simp
  qed
  have cons: "currentCity (steps r ! (i + 1)) = nextCity (steps r ! i)"
    if "i + 1 < length (steps r)" for i
    using nth(1) [OF that] nth(2) [of i] that by simp
  from r first each cons show ?thesis by blast
qed

theorem steps_follow_path_witness:
  "wf_matrix (length (nodes line_graph)) (distanceMatrix line_graph) \<and>
   2 \<le> length (nodes line_graph) \<and>
   (\<exists>r. findMinRoute line_graph 0 = Some (Inr r) \<and>
      currentCity (steps r ! 0) = 0 \<and>
      (\<forall>i<length (steps r).
         currentPath (steps r ! i) \<noteq> [] \<and>
         last (currentPath (steps r ! i)) = currentCity (steps r ! i) \<and>
         currentPath (steps r ! i) = take (i + 1) (finalPath r)) \<and>
      (\<forall>i. i + 1 < length (steps r) \<longrightarrow>
         currentCity (steps r ! (i + 1)) = nextCity (steps r ! i)))"
proof -
  have n: "length (nodes line_graph) = 3" by (simp add: line_graph_def)
  have wf: "wf_matrix (length (nodes line_graph)) (distanceMatrix line_graph)"
    using wf_line_graph n by simp
  show ?thesis using steps_follow_path [OF wf, of 0] wf n by simp
qed

section \<open>Invalid inputs (C2)\<close>

lemma row_None: "length M = n \<Longrightarrow> s < 0 \<or> int n \<le> s \<Longrightarrow> row M s = None"
  by (auto simp: row_def)

text \<open>
  With as many rows in the matrix as there are points, a start index that is no index
  of a point selects no row: the first read of \<open>distanceMatrix[startId][j]\<close> throws.
\<close>

lemma findMinRoute_throws:
  assumes len: "length (distanceMatrix v) = length (nodes v)"
    and bad: "length (nodes v) = 0 \<or> startId < 0 \<or> int (length (nodes v)) \<le> startId"
  shows "findMinRoute v startId = Some (Inl TypeError)"
proof -
  let ?n = "length (nodes v)" and ?M = "distanceMatrix v"
  from bad have out: "startId < 0 \<or> int ?n \<le> startId" by auto
  have r: "row ?M startId = None" by (rule row_None [OF len out])
  show ?thesis
  proof (cases "?n \<le> 1")
    case True
    then have "visit_loop ?M ?n (Num 0) startId {startId} [startId] []
        = Some (Inr (Num 0, startId, [startId], []))"
      by (subst visit_loop.simps) simp
    then show ?thesis using r by (simp add: findMinRoute_def)
  next
    case False
    then have n: "1 < ?n" by simp
    then have up: "[0..<?n] = 0 # [Suc 0..<?n]" by (intro upt_conv_Cons) auto
    have "startId \<noteq> 0" using out n by auto
    then have "nearest ?M startId {startId} ?n = Inl TypeError"
      using r by (simp add: nearest_def up)
    then have "visit_loop ?M ?n (Num 0) startId {startId} [startId] [] = Some (Inl TypeError)"
      using n by (subst visit_loop.simps) simp
    then show ?thesis by (simp add: findMinRoute_def)
  qed
qed

text \<open>
  The claim that the call is rejected with an invalid-input error fails on the code:
  \<open>findMinRoute\<close> validates nothing and reports no such error.
\<close>

theorem findMinRoute_invalid_input_counterexample:
  "findMinRoute line_graph 3 \<noteq> Some (Inl InvalidInput) \<and>
   findMinRoute (line_graph\<lparr>nodes := [], distanceMatrix := []\<rparr>) 0 \<noteq> Some (Inl InvalidInput)"
proof -
  have "findMinRoute line_graph 3 = Some (Inl TypeError)"
    by (rule findMinRoute_throws) (simp_all add: line_graph_def)
  moreover have
    "findMinRoute (line_graph\<lparr>nodes := [], distanceMatrix := []\<rparr>) 0 = Some (Inl TypeError)"
    by (rule findMinRoute_throws) simp_all
  ultimately show ?thesis by simp
qed

text \<open>
  C2, as the code has it. When the matrix has as many rows as there are points (as
  \<open>calculateDistanceMatrix\<close> leaves it) and the point set is empty (\<open>N = 0\<close>) or the
  start index is out of range (\<open>startId < 0\<close> or \<open>startId \<ge> N\<close>), \<open>findMinRoute\<close>
  performs no validation and reports no invalid-input error: the call throws the
  \<open>TypeError\<close> of reading an entry of the row \<open>distanceMatrix[startId]\<close>, which is
  \<open>undefined\<close> (in the first scan when \<open>N \<ge> 2\<close>, at the closing step otherwise), and
  produces no result, partial or not.
\<close>

theorem findMinRoute_invalid_input:
  assumes "length (distanceMatrix v) = length (nodes v)"
    and "length (nodes v) = 0 \<or> startId < 0 \<or> int (length (nodes v)) \<le> startId"
  shows "findMinRoute v startId = Some (Inl TypeError)"
  using assms by (rule findMinRoute_throws)

theorem findMinRoute_invalid_input_witness:
  "findMinRoute (line_graph\<lparr>nodes := [], distanceMatrix := []\<rparr>) 0 = Some (Inl TypeError) \<and>
   findMinRoute line_graph (- 1) = Some (Inl TypeError) \<and>
   findMinRoute line_graph 3 = Some (Inl TypeError) \<and>
   findMinRoute single_graph 1 = Some (Inl TypeError)"
proof -
  have "findMinRoute (line_graph\<lparr>nodes := [], distanceMatrix := []\<rparr>) 0 = Some (Inl TypeError)"
    by (rule findMinRoute_invalid_input) simp_all
  moreover have "findMinRoute line_graph (- 1) = Some (Inl TypeError)"
    by (rule findMinRoute_invalid_input) (simp_all add: line_graph_def)
  moreover have "findMinRoute line_graph 3 = Some (Inl TypeError)"
    by (rule findMinRoute_invalid_input) (simp_all add: line_graph_def)
  moreover have "findMinRoute single_graph 1 = Some (Inl TypeError)"
    by (rule findMinRoute_invalid_input) (simp_all add: single_graph_def)
  ultimately show ?thesis by simp
qed

section \<open>A single city (C3)\<close>

text \<open>
  The claim that a \<open>1 \<times> 1\<close> matrix yields \<open>totalCost = 0\<close>, \<open>finalPath = [0]\<close> and no step
  fails on the code: \<open>findMinRoute\<close> has no case for \<open>N = 1\<close>, and the closing step is
  taken as for any other \<open>N\<close>.
\<close>

theorem findMinRoute_single_counterexample:
  "findMinRoute single_graph 0 \<noteq>
     Some (Inr \<lparr>totalCost = Num 0, finalPath = [0], steps = []\<rparr>)"
proof -
  have "visit_loop [[PosInf]] 1 (Num 0) 0 {0} [0] [] = Some (Inr (Num 0, 0, [0], []))"
    by (subst visit_loop.simps) simp
  then show ?thesis
    by (simp add: findMinRoute_def single_graph_def row_def entry_def)
qed

text \<open>
  C3, as the code has it. For a \<open>1 \<times> 1\<close> distance matrix \<open>[[d]]\<close> (\<open>N = 1\<close>),
  \<open>findMinRoute(0)\<close> skips the loop and takes the closing step from city 0 to itself: it
  returns \<open>totalCost = 0 + d\<close>, \<open>finalPath = [0, 0]\<close> and the one step
  \<open>{0, 0, [0], d}\<close>. With the \<open>d = +\<infinity>\<close> of \<open>calculateDistanceMatrix\<close> the total cost is
  \<open>+\<infinity>\<close>.
\<close>

theorem findMinRoute_single:
  assumes "length (nodes v) = 1" and "distanceMatrix v = [[d]]"
  shows "findMinRoute v 0 =
    Some (Inr \<lparr>totalCost = js_add (Num 0) d, finalPath = [0, 0],
               steps = [\<lparr>currentCity = 0, nextCity = 0, currentPath = [0], costAdded = d\<rparr>]\<rparr>)"
proof -
  have "visit_loop [[d]] 1 (Num 0) 0 {0} [0] [] = Some (Inr (Num 0, 0, [0], []))"
    by (subst visit_loop.simps) simp
  then show ?thesis
    using assms by (simp add: findMinRoute_def row_def entry_def)
qed

theorem findMinRoute_single_witness:
  "length (nodes single_graph) = 1 \<and> distanceMatrix single_graph = [[PosInf]] \<and>
   findMinRoute single_graph 0 =
    Some (Inr \<lparr>totalCost = PosInf, finalPath = [0, 0],
               steps = [\<lparr>currentCity = 0, nextCity = 0, currentPath = [0],
                         costAdded = PosInf\<rparr>]\<rparr>)"
  using findMinRoute_single [of single_graph PosInf] by (simp add: single_graph_def)

section \<open>Ties (C4)\<close>

text \<open>
  C4. In every state of the loop (any current city with a row \<open>r\<close> in the matrix, any set
  of visited cities): when the unvisited city \<open>p\<close> attains the least distance from the
  current city, and is the lowest unvisited index that does, the scan selects \<open>p\<close>,
  whatever later cities \<open>q > p\<close> are as near, and the loop goes on from \<open>p\<close> with the
  step to \<open>p\<close> recorded.
\<close>

theorem nearest_tie_break:
  assumes r: "row M cur = Some r"
    and p: "p < n" "int p \<notin> visitedCities" "js_less (entry r (int p)) PosInf"
    and least: "\<forall>j<n. int j \<notin> visitedCities \<longrightarrow> \<not> js_less (entry r (int j)) (entry r (int p))"
    and lowest: "\<forall>j<p. int j \<notin> visitedCities \<longrightarrow> entry r (int j) \<noteq> entry r (int p)"
  shows "nearest M cur visitedCities n = Inr (entry r (int p), int p) \<and>
    (card visitedCities < n \<longrightarrow>
       visit_loop M n tcost cur visitedCities path stps =
       visit_loop M n (js_add tcost (entry r (int p))) (int p) (insert (int p) visitedCities)
         (path @ [int p])
         (stps @ [\<lparr>currentCity = cur, nextCity = int p, currentPath = path,
                   costAdded = entry r (int p)\<rparr>]))"
proof -
  from nearest_inv [OF r] obtain md nc where
    near: "nearest M cur visitedCities n = Inr (md, nc)"
    and si: "scan_inv r visitedCities n md nc" by blast
  from si p obtain c where c: "c < n" "nc = int c" "int c \<notin> visitedCities"
    "md = entry r (int c)" "js_less md PosInf"
    "\<forall>j<n. int j \<notin> visitedCities \<longrightarrow> \<not> js_less (entry r (int j)) md"
    "\<forall>j<c. int j \<notin> visitedCities \<longrightarrow> entry r (int j) \<noteq> md"
    unfolding scan_inv_def by blast
  have "\<not> js_less (entry r (int c)) (entry r (int p))" using least c(1,3) by blast
  moreover have "\<not> js_less (entry r (int p)) (entry r (int c))" using c(4,6) p(1,2) by blast
  ultimately have eq: "entry r (int c) = entry r (int p)"
    using js_less_tricho [of "entry r (int c)" "entry r (int p)"] c(4,5) p(3) by blast
  have "\<not> c < p" using lowest c(3) eq by blast
  moreover have "\<not> p < c" using c(7) p(2) c(4) eq by auto
  ultimately have "c = p" by simp
  with near c have n1: "nearest M cur visitedCities n = Inr (entry r (int p), int p)" by simp
  have "visit_loop M n tcost cur visitedCities path stps =
       visit_loop M n (js_add tcost (entry r (int p))) (int p) (insert (int p) visitedCities)
         (path @ [int p])
         (stps @ [\<lparr>currentCity = cur, nextCity = int p, currentPath = path,
                   costAdded = entry r (int p)\<rparr>])" if "card visitedCities < n"
    using that n1 by (subst visit_loop.simps) simp
  with n1 show ?thesis by blast
qed

theorem nearest_tie_break_witness:
  "entry (tie_matrix ! 0) 1 = entry (tie_matrix ! 0) 2 \<and>
   nearest tie_matrix 0 {0} 3 = Inr (Num 2, 1) \<and>
   visit_loop tie_matrix 3 (Num 0) 0 {0} [0] [] =
   visit_loop tie_matrix 3 (Num 2) 1 {0, 1} [0, 1]
     [\<lparr>currentCity = 0, nextCity = 1, currentPath = [0], costAdded = Num 2\<rparr>]"
proof -
  have r: "row tie_matrix 0 = Some [PosInf, Num 2, Num 2]"
    by (simp add: row_def tie_matrix_def)
  have least: "\<forall>j<3. int j \<notin> {0} \<longrightarrow>
      \<not> js_less (entry [PosInf, Num 2, Num 2] (int j)) (entry [PosInf, Num 2, Num 2] (int 1))"
    by (simp add: entry_def less_Suc_eq numeral_3_eq_3)
  have lowest: "\<forall>j<1. int j \<notin> {0} \<longrightarrow>
      entry [PosInf, Num 2, Num 2] (int j) \<noteq> entry [PosInf, Num 2, Num 2] (int 1)"
    by simp
  have "js_less (entry [PosInf, Num 2, Num 2] (int 1)) PosInf" by (simp add: entry_def)
  from nearest_tie_break [OF r _ _ this least lowest, of "Num 0" "[0]" "[]"]
  show ?thesis by (simp add: entry_def tie_matrix_def insert_commute)
qed

section \<open>The cost shown at a tick (C8)\<close>

lemma cost_loop_append:
  "cost_loop stps (xs @ ys) a =
     (case cost_loop stps xs a of Inl e \<Rightarrow> Inl e | Inr a' \<Rightarrow> cost_loop stps ys a')"
  by (induction xs arbitrary: a) auto

lemma cost_loop_upt:
  "k \<le> length stps \<Longrightarrow> cost_loop stps [0..<k] (Num 0) = Inr (sum_costs (take k stps))"
proof (induction k)
  case 0
  show ?case by (simp add: sum_costs_def)
next
  case (Suc k)
  then show ?case
    by (simp add: cost_loop_append sum_costs_def take_Suc_conv_app_nth)
qed

text \<open>
  C8. For every trace \<open>steps\<close> and every tick \<open>k < steps.length\<close>, the loop of
  \<open>drawAnimationStep(steps, k)\<close> computes the sum of \<open>costAdded\<close> over \<open>steps[0..k]\<close>
  (inclusive), and that sum is the cost of every frame the call hands to the canvas: the
  cost is a function of the trace and the tick alone, no accumulator is carried from one
  tick to the next.
\<close>

theorem costSoFar_is_prefix_sum:
  assumes "k < length stps"
  shows "cost_loop stps [0..<k + 1] (Num 0) = Inr (sum_costs (take (k + 1) stps)) \<and>
    (\<forall>f. drawAnimationStep v stps k = Inr f \<longrightarrow> costSoFar f = sum_costs (take (k + 1) stps))"
proof -
  have c: "cost_loop stps [0..<k + 1] (Num 0) = Inr (sum_costs (take (k + 1) stps))"
    using assms by (intro cost_loop_upt) simp
  have "costSoFar f = sum_costs (take (k + 1) stps)" if "drawAnimationStep v stps k = Inr f" for f
    using that assms c unfolding drawAnimationStep_def
    by (auto split: sum.splits option.splits)
  with c show ?thesis by blast
qed

lemma line_graph_frame:
  "drawAnimationStep line_graph
      [\<lparr>currentCity = 0, nextCity = 1, currentPath = [0], costAdded = Num 2\<rparr>,
       \<lparr>currentCity = 1, nextCity = 2, currentPath = [0, 1], costAdded = Num 1\<rparr>,
       \<lparr>currentCity = 2, nextCity = 0, currentPath = [0, 1, 2], costAdded = Num 3\<rparr>] 1 =
     Inr \<lparr>drawnPath = [0, 1], highlightedEdge = (1, 2), costSoFar = Num 3\<rparr>"
  by code_simp

theorem costSoFar_is_prefix_sum_witness:
  "(1::nat) < length
      [\<lparr>currentCity = 0, nextCity = 1, currentPath = [0], costAdded = Num 2\<rparr>,
       \<lparr>currentCity = 1, nextCity = 2, currentPath = [0, 1], costAdded = Num 1\<rparr>,
       \<lparr>currentCity = 2, nextCity = 0, currentPath = [0, 1, 2], costAdded = Num 3\<rparr>] \<and>
   drawAnimationStep line_graph
      [\<lparr>currentCity = 0, nextCity = 1, currentPath = [0], costAdded = Num 2\<rparr>,
       \<lparr>currentCity = 1, nextCity = 2, currentPath = [0, 1], costAdded = Num 1\<rparr>,
       \<lparr>currentCity = 2, nextCity = 0, currentPath = [0, 1, 2], costAdded = Num 3\<rparr>] 1 =
     Inr \<lparr>drawnPath = [0, 1], highlightedEdge = (1, 2), costSoFar = Num 3\<rparr> \<and>
   sum_costs (take 2
      [\<lparr>currentCity = 0, nextCity = 1, currentPath = [0], costAdded = Num 2\<rparr>,
       \<lparr>currentCity = 1, nextCity = 2, currentPath = [0, 1], costAdded = Num 1\<rparr>,
       \<lparr>currentCity = 2, nextCity = 0, currentPath = [0, 1, 2], costAdded = Num 3\<rparr>]) = Num 3"
  using costSoFar_is_prefix_sum [of 1
      "[\<lparr>currentCity = 0, nextCity = 1, currentPath = [0], costAdded = Num 2\<rparr>,
        \<lparr>currentCity = 1, nextCity = 2, currentPath = [0, 1], costAdded = Num 1\<rparr>,
        \<lparr>currentCity = 2, nextCity = 0, currentPath = [0, 1, 2], costAdded = Num 3\<rparr>]"
      line_graph]
    line_graph_frame
  by simp

section \<open>The distance matrix (C6)\<close>








text \<open>What \<open>calculateDistanceMatrix\<close> builds is a distance matrix in the sense of \<open>wf_matrix\<close>.\<close>

lemma wf_calculateDistanceMatrix: "wf_matrix (length nds) (calculateDistanceMatrix nds)"
  by (auto simp: wf_matrix_def list_all_length calculateDistanceMatrix_def matrix_entry_def Let_def)

section \<open>Binary64 rounding\<close>

text \<open>
  \<open>rne\<close> fixes the integers and is odd; \<open>round64\<close> is odd, keeps the sign, and never
  rounds below a power of two that the number has reached.
\<close>

lemma rne_of_int: "rne (of_int k) = k"
  by (simp add: rne_def)

lemma rne_eqI:
  assumes "\<bar>y - of_int m\<bar> < 1 / 2"
  shows "rne y = m"
proof (cases "of_int m \<le> y")
  case True
  then have "\<lfloor>y\<rfloor> = m" using assms by (intro floor_unique) auto
  then show ?thesis using assms True by (simp add: rne_def Let_def)
next
  case False
  then have "\<lfloor>y\<rfloor> = m - 1" using assms by (intro floor_unique) auto
  then show ?thesis using assms False by (simp add: rne_def Let_def)
qed

lemma rne_ge_floor: "\<lfloor>y\<rfloor> \<le> rne y"
  by (simp add: rne_def Let_def)

lemma rne_uminus: "rne (- y) = - rne y"
proof (cases "y = of_int \<lfloor>y\<rfloor>")
  case True
  then obtain k where "y = of_int k" by metis
  then show ?thesis using rne_of_int [of "- k"] rne_of_int [of k] by simp
next
  case False
  then have lt: "of_int \<lfloor>y\<rfloor> < y" using of_int_floor_le [of y] by linarith
  have a: "real_of_int (- \<lfloor>y\<rfloor> - 1) \<le> - y"
    using real_of_int_floor_add_one_ge [of y] by (simp only: of_int_diff of_int_minus of_int_1)
  have b: "- y < real_of_int (- \<lfloor>y\<rfloor> - 1) + 1" using lt by simp
  have f: "\<lfloor>- y\<rfloor> = - \<lfloor>y\<rfloor> - 1" by (rule floor_unique [OF a b])
  show ?thesis using lt unfolding rne_def Let_def f
    by (auto simp: algebra_simps)
qed

lemma round64_binade:
  assumes "2 powr of_int k \<le> \<bar>x\<bar>" "\<bar>x\<bar> < 2 powr (of_int k + 1)"
  shows "round64 x = of_int (rne (x / 2 powr of_int (k - 52))) * 2 powr of_int (k - 52)"
proof -
  have pos: "0 < \<bar>x\<bar>" using assms(1) by (smt (verit) powr_gt_zero)
  then have "\<lfloor>log 2 \<bar>x\<bar>\<rfloor> = k"
    using assms by (subst floor_log_eq_powr_iff) auto
  then show ?thesis using pos by (simp add: round64_def Let_def)
qed

lemma round64_uminus: "round64 (- x) = - round64 x"
  by (simp add: round64_def Let_def rne_uminus)

lemma round64_nonneg: "0 \<le> x \<Longrightarrow> 0 \<le> round64 x"
proof -
  assume "0 \<le> x"
  have "0 \<le> rne (x / u)" if "0 < u" for u
  proof -
    have "0 \<le> x / u" using \<open>0 \<le> x\<close> that by simp
    then have "0 \<le> \<lfloor>x / u\<rfloor>" by simp
    then show ?thesis using rne_ge_floor [of "x / u"] by linarith
  qed
  then show ?thesis by (simp add: round64_def Let_def)
qed

lemma powr_split: "(2::real) powr a * 2 powr (b - a) = 2 powr b"
  by (simp add: powr_add [symmetric])

lemma round64_pow2_le:
  assumes "2 powr of_int k \<le> x"
  shows "2 powr of_int k \<le> round64 x"
proof -
  have x: "0 < x" using assms by (smt (verit) powr_gt_zero)
  define j where "j = \<lfloor>log 2 x\<rfloor>"
  have jk: "k \<le> j"
  proof -
    have "of_int k \<le> log 2 x" using assms x by (simp add: le_log_iff)
    then show ?thesis unfolding j_def by (simp add: le_floor_iff)
  qed
  have b: "2 powr of_int j \<le> x" "x < 2 powr (of_int j + 1)"
    using floor_log_eq_powr_iff [of x 2 j] x by (auto simp: j_def)
  let ?u = "2 powr of_int (j - 52)"
  have r: "round64 x = of_int (rne (x / ?u)) * ?u"
    using round64_binade [of j x] b x by simp
  have "(2::real) powr 52 \<le> x / ?u"
  proof -
    have "(2::real) powr 52 * ?u = 2 powr of_int j" using powr_split [of 52 "of_int j"] by simp
    then show ?thesis using b(1) by (simp add: pos_le_divide_eq)
  qed
  then have "(2::real) ^ 52 \<le> x / ?u" by simp
  then have "(2::int) ^ 52 \<le> \<lfloor>x / ?u\<rfloor>" by (simp add: le_floor_iff)
  then have "(2::int) ^ 52 \<le> rne (x / ?u)" using rne_ge_floor [of "x / ?u"] by linarith
  then have "(2::real) ^ 52 \<le> of_int (rne (x / ?u))" by (metis of_int_le_iff of_int_numeral of_int_power)
  then have "(2::real) powr 52 * ?u \<le> of_int (rne (x / ?u)) * ?u" by (simp add: mult_right_mono)
  moreover have "(2::real) powr 52 * ?u = 2 powr of_int j"
    using powr_split [of 52 "of_int j"] by simp
  moreover have "2 powr of_int k \<le> (2::real) powr of_int j" using jk by simp
  ultimately show ?thesis using r by linarith
qed

text \<open>
  \<open>round64 x\<close> differs from \<open>x\<close> by at most half a unit in the last place of \<open>x\<close>.
\<close>

lemma rne_error: "\<bar>y - of_int (rne y)\<bar> \<le> 1 / 2"
proof -
  define d where "d = y - of_int \<lfloor>y\<rfloor>"
  have d: "0 \<le> d" "d < 1" unfolding d_def by linarith+
  have y: "y = of_int \<lfloor>y\<rfloor> + d" by (simp add: d_def)
  consider "d < 1 / 2" | "1 / 2 < d" | "d = 1 / 2" by linarith
  then show ?thesis
  proof cases
    case 1
    then have "rne y = \<lfloor>y\<rfloor>" by (simp add: rne_def Let_def d_def)
    then show ?thesis using 1 d by (simp add: d_def)
  next
    case 2
    then have "rne y = \<lfloor>y\<rfloor> + 1" by (simp add: rne_def Let_def d_def)
    then show ?thesis using 2 d by (simp add: d_def)
  next
    case 3
    then have "rne y = \<lfloor>y\<rfloor> \<or> rne y = \<lfloor>y\<rfloor> + 1" by (simp add: rne_def Let_def d_def)
    then show ?thesis using 3 by (auto simp: d_def) 
  qed
qed

lemma round64_error:
  assumes "x \<noteq> 0"
  shows "\<bar>round64 x - x\<bar> \<le> 2 powr of_int (\<lfloor>log 2 \<bar>x\<bar>\<rfloor> - 52) / 2"
proof -
  define u :: real where "u = 2 powr of_int (\<lfloor>log 2 \<bar>x\<bar>\<rfloor> - 52)"
  have u: "0 < u" by (simp add: u_def)
  have "round64 x = of_int (rne (x / u)) * u"
    using assms by (simp add: round64_def Let_def u_def)
  then have "\<bar>round64 x - x\<bar> = \<bar>(of_int (rne (x / u)) - x / u) * u\<bar>"
    using u by (simp add: left_diff_distrib)
  also have "\<dots> = \<bar>x / u - of_int (rne (x / u))\<bar> * u"
    using u by (simp add: abs_mult abs_minus_commute)
  also have "\<dots> \<le> 1 / 2 * u"
    using rne_error [of "x / u"] u by (intro mult_right_mono) simp_all
  finally show ?thesis by (simp add: u_def)
qed

text \<open>
  Rounding a number of a known binade: with \<open>2^52 \<le> |x| * 2^n < 2^53\<close> the binary64
  numbers near \<open>x\<close> are the multiples of \<open>2^(-n)\<close>.
\<close>

lemma round64_scaled:
  assumes "2 ^ 52 \<le> \<bar>x\<bar> * 2 ^ n" "\<bar>x\<bar> * 2 ^ n < 2 ^ 53"
  shows "round64 x = of_int (rne (x * 2 ^ n)) / 2 ^ n"
proof -
  have u: "(2::real) powr of_int (52 - int n - 52) = 1 / 2 ^ n"
    by (simp add: powr_minus powr_realpow field_simps)
  have a: "(2::real) powr of_int (52 - int n) = 2 ^ 52 / 2 ^ n"
    by (simp add: powr_diff powr_realpow)
  have b: "(2::real) powr (of_int (52 - int n) + 1) = 2 ^ 53 / 2 ^ n"
    using powr_add [of "2::real" "of_int (52 - int n)" 1] a by simp
  have "2 powr of_int (52 - int n) \<le> \<bar>x\<bar>" "\<bar>x\<bar> < 2 powr (of_int (52 - int n) + 1)"
    using assms unfolding a b by (simp_all add: field_simps)
  from round64_binade [OF this] show ?thesis unfolding u by simp
qed

lemma round64_exact:
  assumes "2 ^ 52 \<le> \<bar>x\<bar> * 2 ^ n" "\<bar>x\<bar> * 2 ^ n < 2 ^ 53" "x * 2 ^ n \<in> \<int>"
  shows "round64 x = x"
proof -
  from assms(3) obtain m where m: "x * 2 ^ n = of_int m" by (auto elim: Ints_cases)
  show ?thesis
    unfolding round64_scaled [OF assms(1,2)] m rne_of_int
    using m by (simp add: field_simps)
qed

text \<open>Some numbers that binary64 represents exactly.\<close>

lemma r_50: "round64 50 = 50" by (rule round64_exact [where n = 47]) simp_all
lemma r_100: "round64 100 = 100" by (rule round64_exact [where n = 46]) simp_all
lemma r_700: "round64 700 = 700" by (rule round64_exact [where n = 43]) simp_all
lemma r_500: "round64 500 = 500" by (rule round64_exact [where n = 44]) simp_all
lemma r_350: "round64 350 = 350" by (rule round64_exact [where n = 44]) simp_all
lemma r_250: "round64 250 = 250" by (rule round64_exact [where n = 45]) simp_all
lemma r_400: "round64 400 = 400" by (rule round64_exact [where n = 44]) simp_all
lemma r_300: "round64 300 = 300" by (rule round64_exact [where n = 44]) simp_all
lemma r_1444: "round64 1444 = 1444" by (rule round64_exact [where n = 42]) simp_all
lemma r_38: "round64 38 = 38" by (rule round64_exact [where n = 47]) simp_all

text \<open>
  The operations that place and check the second candidate on the draws
  \<open>rounding_draws\<close>, one rounding each.
\<close>

lemma step_a: "fmul (244481122269685 / 2 ^ 52) 700 = 5348024549649359 / 2 ^ 47"
  unfolding fmul_def
  by (subst round64_scaled [where n = 47]) (simp_all add: rne_def Let_def)

lemma step_x1: "fadd (5348024549649359 / 2 ^ 47) 50 = 6192449483707880 / 2 ^ 46"
  unfolding fadd_def
  by (subst round64_scaled [where n = 46]) (simp_all add: rne_def Let_def)

lemma step_b: "fmul (18548651376 / 2 ^ 52) 500 = 4748454752256000 / 2 ^ 61"
  unfolding fmul_def
  by (subst round64_scaled [where n = 61]) (simp_all add: rne_def Let_def)

lemma step_y1: "fadd (4748454752256000 / 2 ^ 61) 50 = 7037164240444150 / 2 ^ 47"
  unfolding fadd_def
  by (subst round64_scaled [where n = 47]) (simp_all add: rne_def Let_def)

lemma step_dx: "fsub (6192449483707880 / 2 ^ 46) 50 = 5348024549649360 / 2 ^ 47"
  unfolding fsub_def
  by (subst round64_scaled [where n = 47]) (simp_all add: rne_def Let_def)

lemma step_dy: "fsub (7037164240444150 / 2 ^ 47) 50 = 4748454752256000 / 2 ^ 61"
  unfolding fsub_def
  by (subst round64_scaled [where n = 61]) (simp_all add: rne_def Let_def)

lemma step_p: "fmul (5348024549649360 / 2 ^ 47) (5348024549649360 / 2 ^ 47) = 6350779143383054 / 2 ^ 42"
  unfolding fmul_def
  by (subst round64_scaled [where n = 42]) (simp_all add: rne_def Let_def)

lemma step_q: "fmul (4748454752256000 / 2 ^ 61) (4748454752256000 / 2 ^ 61) = 5006622346531173 / 2 ^ 70"
  unfolding fmul_def
  by (subst round64_scaled [where n = 70]) (simp_all add: rne_def Let_def)

lemma step_s: "fadd (6350779143383054 / 2 ^ 42) (5006622346531173 / 2 ^ 70) = 1444"
  unfolding fadd_def
  by (subst round64_scaled [where n = 42]) (simp_all add: rne_def Let_def)

lemma step_d: "fsqrt 1444 = 38"
proof -
  have "sqrt 1444 = 38" by (rule real_sqrt_unique) simp_all
  then show ?thesis by (simp add: fsqrt_def r_38)
qed

lemma r_0: "round64 0 = 0"
  by (simp add: round64_def)

section \<open>The separation of the points (C7)\<close>

lemma computed_distance_sym: "computed_distance a b = computed_distance b a"
proof -
  have m: "fsub q p = - fsub p q" for p q
    using round64_uminus [of "p - q"] by (simp add: fsub_def)
  have "fmul (fsub q p) (fsub q p) = fmul (fsub p q) (fsub p q)" for p q
    unfolding m [of p q] by (simp add: fmul_def)
  then show ?thesis unfolding computed_distance_def Let_def by simp
qed

lemma isValidNodePosition_iff:
  "isValidNodePosition nds x y d \<longleftrightarrow>
     (\<forall>nd\<in>set nds. d \<le> computed_distance \<lparr>node_x = x, node_y = y, node_id = i\<rparr> nd)"
  by (induction nds) (auto simp: computed_distance_def Let_def)

lemma find_position_valid:
  "find_position nds w h rnd vp a x y k = (True, x', y', k') \<Longrightarrow>
     (vp \<and> x' = x \<and> y' = y) \<or> isValidNodePosition nds x' y' minDistance"
proof (induction nds w h rnd vp a x y k rule: find_position.induct)
  case (1 nds w h rnd validPosition attempts x y k)
  show ?case
  proof (cases "\<not> validPosition \<and> attempts < maxAttempts")
    case True
    let ?x = "fadd (fmul (rnd k) (fsub w (fmul 2 padding))) padding"
    let ?y = "fadd (fmul (rnd (k + 1)) (fsub h (fmul 2 padding))) padding"
    from True "1.prems" have
      "find_position nds w h rnd (isValidNodePosition nds ?x ?y minDistance) (attempts + 1)
         ?x ?y (k + 2) = (True, x', y', k')"
      by (subst (asm) find_position.simps) (simp add: Let_def)
    from "1.IH" [OF True refl refl this] show ?thesis by auto
  next
    case False
    with "1.prems" show ?thesis
      by (subst (asm) find_position.simps) auto
  qed
qed

lemma separated_snoc:
  assumes "separated d nds" and "\<forall>nd\<in>set nds. d \<le> computed_distance new nd"
  shows "separated d (nds @ [new])"
  unfolding separated_def
proof (intro allI impI)
  fix i j assume ij: "i < length (nds @ [new])" "j < length (nds @ [new])" "i \<noteq> j"
  consider "i < length nds" "j < length nds" | "i < length nds" "j = length nds"
    | "i = length nds" "j < length nds"
    using ij by (cases "i < length nds"; cases "j < length nds") auto
  then show "d \<le> computed_distance ((nds @ [new]) ! i) ((nds @ [new]) ! j)"
  proof cases
    case 1
    then show ?thesis using assms(1) ij(3) by (simp add: separated_def nth_append)
  next
    case 2
    then have "d \<le> computed_distance new (nds ! i)" using assms(2) by simp
    then show ?thesis
      using 2 computed_distance_sym [of new "nds ! i"] by (simp add: nth_append)
  next
    case 3
    then have "d \<le> computed_distance new (nds ! j)" using assms(2) by simp
    then show ?thesis using 3 by (simp add: nth_append)
  qed
qed

lemma place_nodes_separated:
  "separated minDistance nds \<Longrightarrow> separated minDistance (place_nodes w h rnd numNodes i nds k)"
proof (induction w h rnd numNodes i nds k rule: place_nodes.induct)
  case (1 w h rnd numNodes i nds k)
  show ?case
  proof (cases "int i < numNodes")
    case False
    then show ?thesis using "1.prems" by (subst place_nodes.simps) simp
  next
    case True
    obtain vp x y k' where fp: "find_position nds w h rnd False 0 0 0 k = (vp, x, y, k')"
      by (cases "find_position nds w h rnd False 0 0 0 k") auto
    show ?thesis
    proof (cases vp)
      case False
      then show ?thesis using True fp "1.prems" by (subst place_nodes.simps) simp
    next
      case vpT: True
      let ?new = "\<lparr>node_x = x, node_y = y, node_id = i\<rparr>"
      from fp vpT find_position_valid [of nds w h rnd False 0 0 0 k x y k']
      have "isValidNodePosition nds x y minDistance" by simp
      then have "\<forall>nd\<in>set nds. minDistance \<le> computed_distance ?new nd"
        by (simp add: isValidNodePosition_iff [where i = i])
      with "1.prems" have sep: "separated minDistance (nds @ [?new])"
        by (rule separated_snoc)
      have "place_nodes w h rnd numNodes i nds k =
          place_nodes w h rnd numNodes (i + 1) (nds @ [?new]) k'"
        using True fp vpT by (subst place_nodes.simps) simp
      moreover have "separated minDistance (place_nodes w h rnd numNodes (i + 1) (nds @ [?new]) k')"
        using "1.IH" [of vp "(x, y, k')" x "(y, k')" y k'] True fp vpT sep by simp
      ultimately show ?thesis by simp
    qed
  qed
qed

text \<open>
  The rounded operations on the draws \<open>rounding_draws\<close>: the second candidate is at
  \<open>(close_x, close_y)\<close>, and its computed distance from the first point (50, 50) is
  exactly 38.
\<close>

lemma canvas_span: "fsub 800 (fmul 2 50) = 700" "fsub 600 (fmul 2 50) = 500"
  by (simp_all add: fsub_def fmul_def r_100 r_700 r_500)

lemma fmul_zero: "fmul 0 b = 0"
  by (simp add: fmul_def r_0)

lemma fadd_zero_50: "fadd 0 50 = 50"
  by (simp add: fadd_def r_50)

lemma close_x_eq: "fadd (fmul (rounding_draws 3) 700) 50 = close_x"
proof -
  have "rounding_draws 3 = 244481122269685 / 2 ^ 52" by (simp add: rounding_draws_def)
  then show ?thesis by (simp only: step_a step_x1 close_x_def)
qed

lemma close_y_eq: "fadd (fmul (rounding_draws 4) 500) 50 = close_y"
proof -
  have "rounding_draws 4 = 18548651376 / 2 ^ 52" by (simp add: rounding_draws_def)
  then show ?thesis by (simp only: step_b step_y1 close_y_def)
qed

lemma close_computed:
  "fsqrt (fadd (fmul (fsub close_x 50) (fsub close_x 50))
                (fmul (fsub close_y 50) (fsub close_y 50))) = 38"
  by (simp only: close_x_def close_y_def step_dx step_dy step_p step_q step_s step_d)

lemma close_exact: "sqrt ((close_x - 50)\<^sup>2 + (close_y - 50)\<^sup>2) < 38"
proof -
  have "(close_x - 50)\<^sup>2 + (close_y - 50)\<^sup>2 < 38\<^sup>2"
    by (simp add: close_x_def close_y_def power2_eq_square)
  then show ?thesis by (intro real_less_lsqrt) simp_all
qed

text \<open>A candidate 64 or more to the right or left of a point is at a computed distance of at least 64.\<close>

lemma far_computed:
  assumes "64 \<le> \<bar>x - x'\<bar>"
  shows "64 \<le> fsqrt (fadd (fmul (fsub x x') (fsub x x')) (fmul (fsub y y') (fsub y y')))"
proof -
  have p6: "(2::real) powr of_int 6 = 64" and p12: "(2::real) powr of_int 12 = 4096"
    by simp_all
  have "64 \<le> \<bar>fsub x x'\<bar>"
  proof (cases "0 \<le> x - x'")
    case True
    then have "2 powr of_int 6 \<le> x - x'" using assms p6 by simp
    from round64_pow2_le [OF this] show ?thesis by (simp add: fsub_def)
  next
    case False
    then have "2 powr of_int 6 \<le> x' - x" using assms p6 by simp
    from round64_pow2_le [OF this] have "64 \<le> round64 (x' - x)" by simp
    moreover have "fsub x x' = - round64 (x' - x)"
      using round64_uminus [of "x' - x"] by (simp add: fsub_def)
    ultimately show ?thesis by simp
  qed
  then have "64 * 64 \<le> \<bar>fsub x x'\<bar> * \<bar>fsub x x'\<bar>" by (intro mult_mono) simp_all
  then have "2 powr of_int 12 \<le> fsub x x' * fsub x x'" using p12 by simp
  from round64_pow2_le [OF this] have a: "4096 \<le> fmul (fsub x x') (fsub x x')"
    by (simp add: fmul_def)
  have b: "0 \<le> fmul (fsub y y') (fsub y y')"
    by (simp add: fmul_def round64_nonneg)
  from a b have "2 powr of_int 12 \<le> fmul (fsub x x') (fsub x x') + fmul (fsub y y') (fsub y y')"
    using p12 by simp
  from round64_pow2_le [OF this]
  have "4096 \<le> fadd (fmul (fsub x x') (fsub x x')) (fmul (fsub y y') (fsub y y'))"
    by (simp add: fadd_def)
  then have "64\<^sup>2 \<le> fadd (fmul (fsub x x') (fsub x x')) (fmul (fsub y y') (fsub y y'))"
    by simp
  then have "64 \<le> sqrt (fadd (fmul (fsub x x') (fsub x x')) (fmul (fsub y y') (fsub y y')))"
    by (rule real_le_rsqrt)
  then have "2 powr of_int 6 \<le>
      sqrt (fadd (fmul (fsub x x') (fsub x x')) (fmul (fsub y y') (fsub y y')))"
    using p6 by simp
  from round64_pow2_le [OF this] show ?thesis by (simp add: fsqrt_def)
qed

lemma third_valid:
  "\<not> fsqrt (fadd (fmul (fsub 400 50) (fsub 400 50)) (fmul (fsub 300 50) (fsub 300 50))) < 38"
  "\<not> fsqrt (fadd (fmul (fsub 400 close_x) (fsub 400 close_x))
                  (fmul (fsub 300 close_y) (fsub 300 close_y))) < 38"
proof -
  have "64 \<le> \<bar>400 - (50::real)\<bar>" by simp
  from far_computed [OF this, of 300 50]
  show "\<not> fsqrt (fadd (fmul (fsub 400 50) (fsub 400 50)) (fmul (fsub 300 50) (fsub 300 50))) < 38"
    by simp
  have "64 \<le> \<bar>400 - close_x\<bar>" by (simp add: close_x_def)
  from far_computed [OF this, of 300 close_y]
  show "\<not> fsqrt (fadd (fmul (fsub 400 close_x) (fsub 400 close_x))
                  (fmul (fsub 300 close_y) (fsub 300 close_y))) < 38"
    by simp
qed

lemma third_coords: "fadd (fmul (1 / 2) 700) 50 = 400" "fadd (fmul (1 / 2) 500) 50 = 300"
  by (simp_all add: fadd_def fmul_def r_350 r_250 r_400 r_300)

lemma rounding_draws_values:
  "rounding_draws 0 = 0" "rounding_draws (Suc 0) = 0" "rounding_draws (Suc (Suc 0)) = 0"
  "rounding_draws 5 = 1 / 2" "rounding_draws 6 = 1 / 2"
  by (simp_all add: rounding_draws_def)

lemma fp0:
  "find_position [] 800 600 rounding_draws False 0 0 0 (Suc 0) = (True, 50, 50, 3)"
  apply (subst find_position.simps)
  apply (subst find_position.simps)
  apply (simp add: maxAttempts_def padding_def Let_def rounding_draws_values canvas_span
      fmul_zero fadd_zero_50)
  done

lemma fp1:
  "find_position [\<lparr>node_x = 50, node_y = 50, node_id = 0\<rparr>] 800 600 rounding_draws
     False 0 0 0 3 = (True, close_x, close_y, 5)"
  apply (subst find_position.simps)
  apply (subst find_position.simps)
  apply (simp add: maxAttempts_def padding_def minDistance_def Let_def canvas_span
      close_x_eq close_y_eq close_computed)
  done

lemma fp2:
  "find_position [\<lparr>node_x = 50, node_y = 50, node_id = 0\<rparr>,
       \<lparr>node_x = close_x, node_y = close_y, node_id = 1\<rparr>] 800 600 rounding_draws
     False 0 0 0 5 = (True, 400, 300, 7)"
  apply (subst find_position.simps)
  apply (subst find_position.simps)
  apply (simp add: maxAttempts_def padding_def minDistance_def Let_def canvas_span
      rounding_draws_values third_coords third_valid)
  done


lemma rounding_numNodes: "\<lfloor>fmul (rounding_draws 0) 7\<rfloor> + 3 = 3"
  by (simp add: rounding_draws_values fmul_zero)

lemma place_nodes_push:
  assumes "find_position nds w h rnd False 0 0 0 k = (True, x, y, k')" "int i < numNodes"
  shows "place_nodes w h rnd numNodes i nds k =
    place_nodes w h rnd numNodes (i + 1) (nds @ [\<lparr>node_x = x, node_y = y, node_id = i\<rparr>]) k'"
  using assms by (subst place_nodes.simps) simp

lemma place_nodes_done: "\<not> int i < numNodes \<Longrightarrow> place_nodes w h rnd numNodes i nds k = nds"
  by (subst place_nodes.simps) simp

lemma rounding_nodes:
  "nodes (generateRandomGraph line_graph rounding_draws) =
     [\<lparr>node_x = 50, node_y = 50, node_id = 0\<rparr>,
      \<lparr>node_x = close_x, node_y = close_y, node_id = 1\<rparr>,
      \<lparr>node_x = 400, node_y = 300, node_id = 2\<rparr>]"
proof -
  let ?n0 = "\<lparr>node_x = 50, node_y = 50, node_id = 0\<rparr>"
  let ?n1 = "\<lparr>node_x = close_x, node_y = close_y, node_id = 1\<rparr>"
  let ?n2 = "\<lparr>node_x = 400, node_y = 300, node_id = 2\<rparr>"
  have "place_nodes 800 600 rounding_draws 3 0 [] 1 =
      place_nodes 800 600 rounding_draws 3 1 [?n0] 3"
    using place_nodes_push [of "[]" 800 600 rounding_draws 1 50 50 3 0 3] fp0 by simp
  also have "\<dots> = place_nodes 800 600 rounding_draws 3 2 [?n0, ?n1] 5"
    using place_nodes_push [of "[?n0]" 800 600 rounding_draws 3 close_x close_y 5 1 3] fp1
    by (simp add: numeral_2_eq_2)
  also have "\<dots> = place_nodes 800 600 rounding_draws 3 3 [?n0, ?n1, ?n2] 7"
    using place_nodes_push [of "[?n0, ?n1]" 800 600 rounding_draws 5 400 300 7 2 3] fp2
    by (simp add: numeral_2_eq_2 numeral_3_eq_3)
  also have "\<dots> = [?n0, ?n1, ?n2]"
    by (rule place_nodes_done) simp
  finally show ?thesis
    by (simp add: generateRandomGraph_def Let_def rounding_numNodes line_graph_def)
qed

text \<open>
  The claim that every two points of a set that was not truncated are at a Euclidean
  distance of at least 38 fails on the code. On the draws \<open>rounding_draws\<close> three points
  are intended and three are placed; the second is accepted because its computed
  distance from the first is exactly 38, while its Euclidean distance is below 38.
\<close>

theorem generateRandomGraph_exact_separation_counterexample:
  "\<lfloor>fmul (rounding_draws 0) 7\<rfloor> + 3 = 3 \<and>
   length (nodes (generateRandomGraph line_graph rounding_draws)) = 3 \<and>
   euclidean (nodes (generateRandomGraph line_graph rounding_draws) ! 1)
     (nodes (generateRandomGraph line_graph rounding_draws) ! 0) < 38"
  using close_exact by (simp add: rounding_numNodes rounding_nodes euclidean_def)

text \<open>
  C7, as the code has it. For every point set that \<open>generateRandomGraph\<close> returns,
  whatever the random draws and whether the set was truncated or not, every two distinct
  points are at a computed distance of at least 38, the computed distance being the
  binary64 value of \<open>Math.sqrt(dx * dx + dy * dy)\<close> that \<open>isValidNodePosition\<close> compares
  with \<open>minDistance\<close>: a candidate is pushed only when that value is at least 38 for
  every point pushed before.
\<close>

theorem generateRandomGraph_separated:
  "\<forall>i<length (nodes (generateRandomGraph v rnd)).
     \<forall>j<length (nodes (generateRandomGraph v rnd)). i \<noteq> j \<longrightarrow>
       38 \<le> computed_distance (nodes (generateRandomGraph v rnd) ! i)
               (nodes (generateRandomGraph v rnd) ! j)"
proof -
  have "separated minDistance []" by (simp add: separated_def)
  then have "separated minDistance (nodes (generateRandomGraph v rnd))"
    by (simp add: generateRandomGraph_def Let_def place_nodes_separated)
  then show ?thesis by (simp add: separated_def minDistance_def)
qed

theorem generateRandomGraph_separated_witness:
  "length (nodes (generateRandomGraph line_graph rounding_draws)) = 3 \<and>
   computed_distance (nodes (generateRandomGraph line_graph rounding_draws) ! 1)
     (nodes (generateRandomGraph line_graph rounding_draws) ! 0) = 38 \<and>
   38 \<le> computed_distance (nodes (generateRandomGraph line_graph rounding_draws) ! 1)
           (nodes (generateRandomGraph line_graph rounding_draws) ! 0) \<and>
   38 \<le> computed_distance (nodes (generateRandomGraph line_graph rounding_draws) ! 2)
           (nodes (generateRandomGraph line_graph rounding_draws) ! 1)"
proof -
  have n: "length (nodes (generateRandomGraph line_graph rounding_draws)) = 3"
    by (simp add: rounding_nodes)
  have e: "computed_distance (nodes (generateRandomGraph line_graph rounding_draws) ! 1)
     (nodes (generateRandomGraph line_graph rounding_draws) ! 0) = 38"
    using close_computed by (simp add: rounding_nodes computed_distance_def Let_def)
  note t = generateRandomGraph_separated [of line_graph rounding_draws, rule_format]
  have "38 \<le> computed_distance (nodes (generateRandomGraph line_graph rounding_draws) ! 1)
           (nodes (generateRandomGraph line_graph rounding_draws) ! 0)"
    using t [of 1 0] n by simp
  moreover have "38 \<le> computed_distance (nodes (generateRandomGraph line_graph rounding_draws) ! 2)
           (nodes (generateRandomGraph line_graph rounding_draws) ! 1)"
    using t [of 2 1] n by simp
  ultimately show ?thesis using n e by simp
qed

section \<open>A generated graph is not empty (C10)\<close>

lemma find_position_empty:
  "find_position [] w h rnd False 0 x y k =
     (True, fadd (fmul (rnd k) (fsub w (fmul 2 padding))) padding,
      fadd (fmul (rnd (k + 1)) (fsub h (fmul 2 padding))) padding, k + 2)"
  by (subst find_position.simps, subst find_position.simps) (simp add: maxAttempts_def Let_def)

lemma place_nodes_prefix: "\<exists>ys. place_nodes w h rnd numNodes i nds k = nds @ ys"
proof (induction w h rnd numNodes i nds k rule: place_nodes.induct)
  case (1 w h rnd numNodes i nds k)
  show ?case
  proof (cases "int i < numNodes")
    case False
    then show ?thesis by (subst place_nodes.simps) simp
  next
    case True
    obtain vp x y k' where fp: "find_position nds w h rnd False 0 0 0 k = (vp, x, y, k')"
      by (cases "find_position nds w h rnd False 0 0 0 k") auto
    show ?thesis
    proof (cases vp)
      case False
      then show ?thesis using True fp by (subst place_nodes.simps) simp
    next
      case vpT: True
      from "1.IH" [of vp "(x, y, k')" x "(y, k')" y k'] True fp vpT
      obtain ys where "place_nodes w h rnd numNodes (i + 1)
          (nds @ [\<lparr>node_x = x, node_y = y, node_id = i\<rparr>]) k' =
          (nds @ [\<lparr>node_x = x, node_y = y, node_id = i\<rparr>]) @ ys" by auto
      then show ?thesis using True fp vpT by (subst place_nodes.simps) simp
    qed
  qed
qed

text \<open>
  C10. Whatever the random draws (\<open>Math.random()\<close> is never negative),
  \<open>generateRandomGraph\<close> produces a non-empty point set: the first candidate is
  accepted, since the validity check passes on an empty node list. The matrix has as
  many rows as there are points, so \<open>findMinRoute\<close> never meets \<open>N = 0\<close> after a
  generation, and started at the first point it returns a tour.
\<close>

theorem generateRandomGraph_nonempty:
  assumes "0 \<le> rnd 0"
  shows "nodes (generateRandomGraph v rnd) \<noteq> [] \<and>
    nodes (generateRandomGraph v rnd) ! 0 =
      \<lparr>node_x = fadd (fmul (rnd 1) (fsub (canvas_width v) (fmul 2 50))) 50,
       node_y = fadd (fmul (rnd 2) (fsub (canvas_height v) (fmul 2 50))) 50, node_id = 0\<rparr> \<and>
    length (distanceMatrix (generateRandomGraph v rnd)) =
      length (nodes (generateRandomGraph v rnd)) \<and>
    (\<exists>r. findMinRoute (generateRandomGraph v rnd) 0 = Some (Inr r))"
proof -
  let ?w = "canvas_width v" and ?h = "canvas_height v"
  let ?numNodes = "\<lfloor>fmul (rnd 0) 7\<rfloor> + 3"
  let ?first = "\<lparr>node_x = fadd (fmul (rnd 1) (fsub ?w (fmul 2 padding))) padding,
       node_y = fadd (fmul (rnd 2) (fsub ?h (fmul 2 padding))) padding, node_id = 0\<rparr>"
  from assms have "0 \<le> fmul (rnd 0) 7" by (simp add: fmul_def round64_nonneg)
  then have "0 \<le> \<lfloor>fmul (rnd 0) 7\<rfloor>" by simp
  then have pos: "int 0 < ?numNodes" by linarith
  have "place_nodes ?w ?h rnd ?numNodes 0 [] 1 = place_nodes ?w ?h rnd ?numNodes 1 [?first] 3"
    using pos
    by (subst place_nodes.simps) (simp add: find_position_empty numeral_2_eq_2 numeral_3_eq_3)
  moreover obtain ys where "place_nodes ?w ?h rnd ?numNodes 1 [?first] 3 = [?first] @ ys"
    using place_nodes_prefix by blast
  ultimately have nds: "nodes (generateRandomGraph v rnd) = ?first # ys"
    by (simp add: generateRandomGraph_def Let_def)
  have len: "length (distanceMatrix (generateRandomGraph v rnd)) =
      length (nodes (generateRandomGraph v rnd))"
    by (simp add: generateRandomGraph_def calculateDistanceMatrix_def Let_def)
  have "wf_matrix (length (nodes (generateRandomGraph v rnd)))
      (distanceMatrix (generateRandomGraph v rnd))"
    by (simp add: generateRandomGraph_def Let_def wf_calculateDistanceMatrix)
  from findMinRoute_valid [OF this, of 0] nds
  have "\<exists>r. findMinRoute (generateRandomGraph v rnd) 0 = Some (Inr r)" by auto
  with nds len show ?thesis by (simp add: padding_def)
qed

theorem generateRandomGraph_nonempty_witness:
  "(0::real) \<le> 1 / 2 \<and>
   nodes (generateRandomGraph line_graph (\<lambda>k. 1 / 2)) \<noteq> [] \<and>
   nodes (generateRandomGraph line_graph (\<lambda>k. 1 / 2)) ! 0 =
     \<lparr>node_x = 400, node_y = 300, node_id = 0\<rparr> \<and>
   length (distanceMatrix (generateRandomGraph line_graph (\<lambda>k. 1 / 2))) =
     length (nodes (generateRandomGraph line_graph (\<lambda>k. 1 / 2))) \<and>
   (\<exists>r. findMinRoute (generateRandomGraph line_graph (\<lambda>k. 1 / 2)) 0 = Some (Inr r))"
  using generateRandomGraph_nonempty [of "\<lambda>k. 1 / 2" line_graph]
  by (simp add: line_graph_def canvas_span third_coords)

end
